theory Spec2Isabelle
  imports Main
begin

section \<open>Data model\<close>

text \<open>
  \<^verbatim>\<open>core/bookmark.ts\<close> is not part of the sources at hand; its shape is fixed by every
  use in \<^verbatim>\<open>globalBookmarks.ts\<close>, \<^verbatim>\<open>operations.ts\<close> and \<^verbatim>\<open>extension.ts\<close>:
  \<^verbatim>\<open>{ line: number, column: number, label?: string }\<close>.  Line and column numbers are
  JavaScript numbers holding integers, modelled as \<^typ>\<open>int\<close> so that the subtractions of
  the sticky engine are not truncated.
\<close>

record Bookmark =
  line :: int
  column :: int
  label :: string

text \<open>\<^verbatim>\<open>interface GlobalFile { path: string; bookmarks: Bookmark[] }\<close> (globalBookmarks.ts).\<close>

record GlobalFile =
  path :: string
  bookmarks :: "Bookmark list"

text \<open>
  One element of \<^verbatim>\<open>event.contentChanges\<close>: the replaced range and the replacement text.
  The host's \<^verbatim>\<open>Position.character\<close> is a non-negative integer, hence \<^typ>\<open>nat\<close>.
\<close>

record ContentChange =
  start_line :: int
  start_character :: nat
  end_line :: int
  end_character :: nat
  change_text :: string

text \<open>
  The host's \<^verbatim>\<open>TextDocument\<close>, as far as the code reads it: \<^verbatim>\<open>lineCount\<close> and
  \<^verbatim>\<open>lineAt(n).text\<close>.  The sticky engine only reads the start line of a change in the
  document as it is after the edit; that line always exists, so the read is total here.
\<close>

record TextDocument =
  lineCount :: int
  lineAt_text :: "int \<Rightarrow> string"

section \<open>Array primitives of the host language\<close>

text \<open>
  \<^verbatim>\<open>Array.prototype.splice(start, 1)\<close>: a negative start counts from the end of the array,
  the start is clamped to the array, and at most one element is removed there.
\<close>

definition splice1 :: "int \<Rightarrow> 'a list \<Rightarrow> 'a list" where
  "splice1 start xs =
     (let len = int (length xs);
          k = (if start < 0 then max (len + start) 0 else min start len)
      in take (nat k) xs @ drop (Suc (nat k)) xs)"

section \<open>Lookup by line\<close>

text \<open>
  \<^verbatim>\<open>indexOfBookmark(file, line)\<close> exists twice in the sources with the same body
  (\<^verbatim>\<open>operations.ts\<close> and \<^verbatim>\<open>GlobalBookmarksManager\<close>): a linear scan returning the first
  index whose bookmark is on that line, and \<open>-1\<close> when there is none.
\<close>

fun indexOfFrom :: "Bookmark list \<Rightarrow> int \<Rightarrow> int \<Rightarrow> int" where
  "indexOfFrom [] ln index = -1"
| "indexOfFrom (element # rest) ln index =
     (if line element = ln then index else indexOfFrom rest ln (index + 1))"

definition indexOfBookmark :: "'a GlobalFile_scheme \<Rightarrow> int \<Rightarrow> int" where
  "indexOfBookmark file ln = indexOfFrom (bookmarks file) ln 0"

text \<open>
  \<^verbatim>\<open>updateBookmarkLine(file, index, newLine)\<close>: \<^verbatim>\<open>file.bookmarks[index].line = newLine\<close>.
  Every call site passes an index that \<^verbatim>\<open>indexOfBookmark\<close> or a loop over the array
  produced, so the index is in range.
\<close>

definition updateBookmarkLine :: "'a GlobalFile_scheme \<Rightarrow> int \<Rightarrow> int \<Rightarrow> 'a GlobalFile_scheme" where
  "updateBookmarkLine file index newLine =
     file\<lparr>bookmarks := (bookmarks file)[nat index := (bookmarks file ! nat index)\<lparr>line := newLine\<rparr>]\<rparr>"

section \<open>Sticky adjustment of global bookmarks\<close>

text \<open>
  The class \<^verbatim>\<open>\s\<close> of a JavaScript regular expression, restricted to the characters a
  \<^typ>\<open>char\<close> can hold: tab, line feed, vertical tab, form feed, carriage return, space
  and no-break space.
\<close>

definition js_whitespace :: "char \<Rightarrow> bool" where
  "js_whitespace c = (c \<in> {CHR 0x09, CHR 0x0A, CHR 0x0B, CHR 0x0C, CHR 0x0D, CHR 0x20, CHR 0xA0})"

text \<open>\<^verbatim>\<open>text.replace(/\t/g, "").replace(/\s/g, "") === ""\<close>\<close>

definition strippedIsEmpty :: "string \<Rightarrow> bool" where
  "strippedIsEmpty t =
     (filter (\<lambda>c. \<not> js_whitespace c) (filter (\<lambda>c. c \<noteq> CHR 0x09) t) = [])"

text \<open>
  The block that both passes share:
  \<^verbatim>\<open>let eventChar = change.range.start.character;
  if (eventChar > 0) { let text = editor.document.lineAt(eventLine).text; ...
      if (text === "") { eventChar = 0; } }\<close>
\<close>

definition adjustedEventChar :: "TextDocument \<Rightarrow> int \<Rightarrow> nat \<Rightarrow> nat" where
  "adjustedEventChar document eventLine eventChar0 =
     (if eventChar0 > 0
      then (if strippedIsEmpty (lineAt_text document eventLine) then 0 else eventChar0)
      else eventChar0)"

text \<open>
  The two shifting loops,
  \<^verbatim>\<open>for (let i = 0; i < globalFile.bookmarks.length; i++) { const bkmLine = ...;
      if ((bkmLine > eventLine && eventChar > 0) || (bkmLine >= eventLine && eventChar === 0)) {
          manager.updateBookmarkLine(globalFile, i, bkmLine + delta); updated = true; } }\<close>
  with \<open>delta\<close> the number of added lines, or minus the number of deleted lines.  Each
  iteration reads and writes only element \<open>i\<close>, so the loop is a recursion over the array.
\<close>

fun shiftLoop :: "int \<Rightarrow> nat \<Rightarrow> int \<Rightarrow> Bookmark list \<Rightarrow> bool \<Rightarrow> Bookmark list \<times> bool" where
  "shiftLoop eventLine eventChar delta [] updated = ([], updated)"
| "shiftLoop eventLine eventChar delta (b # rest) updated =
     (let bkmLine = line b in
      if (bkmLine > eventLine \<and> eventChar > 0) \<or> (bkmLine \<ge> eventLine \<and> eventChar = 0)
      then (let (rest', u) = shiftLoop eventLine eventChar delta rest True
            in (b\<lparr>line := bkmLine + delta\<rparr> # rest', u))
      else (let (rest', u) = shiftLoop eventLine eventChar delta rest updated
            in (b # rest', u)))"

text \<open>
  The first loop of the deletion pass,
  \<^verbatim>\<open>for (let line = change.range.start.line; line < change.range.end.line; line++)\<close>.
\<close>

function removeLoop ::
  "bool \<Rightarrow> int \<Rightarrow> int \<Rightarrow> GlobalFile \<Rightarrow> bool \<Rightarrow> GlobalFile \<times> bool" where
  "removeLoop keepBookmarksOnLineDelete ln endLine globalFile updated =
     (if ln < endLine then
        (let idx = indexOfBookmark globalFile ln in
         if idx > -1 then
           (if keepBookmarksOnLineDelete then
              (let hasAfter = (indexOfBookmark globalFile endLine > -1) in
               if \<not> hasAfter
               then removeLoop keepBookmarksOnLineDelete (ln + 1) endLine
                      (updateBookmarkLine globalFile idx endLine) True
               else removeLoop keepBookmarksOnLineDelete (ln + 1) endLine
                      (globalFile\<lparr>bookmarks := splice1 idx (bookmarks globalFile)\<rparr>) True)
            else removeLoop keepBookmarksOnLineDelete (ln + 1) endLine
                   (globalFile\<lparr>bookmarks := splice1 idx (bookmarks globalFile)\<rparr>) True)
         else removeLoop keepBookmarksOnLineDelete (ln + 1) endLine globalFile updated)
      else (globalFile, updated))"
  by pat_completeness auto
termination
  by (relation "measure (\<lambda>(k, ln, endLine, f, u). nat (endLine - ln))") auto

text \<open>The body of \<^verbatim>\<open>for (const change of event.contentChanges)\<close>.\<close>

definition processChange ::
  "bool \<Rightarrow> TextDocument \<Rightarrow> ContentChange \<Rightarrow> GlobalFile \<times> bool \<Rightarrow> GlobalFile \<times> bool" where
  "processChange keepBookmarksOnLineDelete document change st =
     (let isAdd = (CHR 0x0A \<in> set (change_text change));
          isDel = (start_line change < end_line change)
      in if \<not> isAdd \<and> \<not> isDel then st
         else
           (let st1 =
                  (if isAdd then
                     (let numberOfLinesAdded = int (length (filter (\<lambda>c. c = CHR 0x0A) (change_text change)));
                          eventLine = start_line change;
                          eventChar = adjustedEventChar document eventLine (start_character change);
                          (bs, u) = shiftLoop eventLine eventChar numberOfLinesAdded
                                      (bookmarks (fst st)) (snd st)
                      in ((fst st)\<lparr>bookmarks := bs\<rparr>, u))
                   else st)
            in if isDel then
                 (let (f2, u2) = removeLoop keepBookmarksOnLineDelete (start_line change)
                                   (end_line change) (fst st1) (snd st1);
                      numberOfLinesDeleted = end_line change - start_line change;
                      eventLine = start_line change;
                      eventChar = adjustedEventChar document eventLine (start_character change);
                      (bs, u) = shiftLoop eventLine eventChar (- numberOfLinesDeleted)
                                  (bookmarks f2) u2
                  in (f2\<lparr>bookmarks := bs\<rparr>, u))
               else st1))"

text \<open>
  \<^verbatim>\<open>updateStickyGlobalBookmarks(event, globalFile, editor, manager): boolean\<close>.  The
  configuration value \<^verbatim>\<open>bookmarks.keepBookmarksOnLineDelete\<close> is the first argument; the
  result pairs the returned flag with the file as the call leaves it.
\<close>

definition updateStickyGlobalBookmarks ::
  "bool \<Rightarrow> ContentChange list \<Rightarrow> GlobalFile \<Rightarrow> TextDocument \<Rightarrow> bool \<times> GlobalFile" where
  "updateStickyGlobalBookmarks keepBookmarksOnLineDelete contentChanges globalFile document =
     (if contentChanges = [] then (False, globalFile)
      else (let (f, updated) = fold (processChange keepBookmarksOnLineDelete document)
                                 contentChanges (globalFile, False)
            in (updated, f)))"

section \<open>The host and the modules that are not at hand\<close>

text \<open>
  A \<^verbatim>\<open>vscode.Uri\<close>, as far as the code reads it.  \<^verbatim>\<open>uri.with({ path })\<close> is the record
  update of \<open>uri_path\<close>; \<^verbatim>\<open>Uri.file\<close> and the derived property \<^verbatim>\<open>fsPath\<close> belong to
  the host and are fields of the environment below.
\<close>

record Uri =
  uri_scheme :: string
  uri_path :: string

text \<open>
  Everything the modelled functions take from outside themselves: the platform, the host's
  JSON routines (\<open>None\<close> is the thrown \<^verbatim>\<open>SyntaxError\<close>; \<open>asFileArray\<close> is
  \<^verbatim>\<open>Array.isArray\<close> together with the TypeScript annotation \<^verbatim>\<open>(file: GlobalFile)\<close> that
  the code trusts), the file system and the open documents, and three constants of
  \<^verbatim>\<open>core/constants.ts\<close> and \<^verbatim>\<open>vscode-ext-codicons\<close>, which are not among the sources.
\<close>

record 'j Env =
  is_win32 :: bool
  JSON_parse :: "string \<Rightarrow> 'j option"
  asFileArray :: "'j \<Rightarrow> GlobalFile list option"
  JSON_stringify :: "GlobalFile list \<Rightarrow> string"
  fsPath :: "Uri \<Rightarrow> string"
  Uri_file :: "string \<Rightarrow> Uri"
  fs_stat :: "Uri \<Rightarrow> bool"
  openTextDocument :: "Uri \<Rightarrow> TextDocument option"
  SEARCH_EDITOR_SCHEME :: string
  UNTITLED_SCHEME :: string
  codicons_tag :: string

text \<open>\<^verbatim>\<open>doc.lineAt(n)\<close> throws outside the document; \<open>None\<close> is the throw.\<close>

definition lineAt :: "TextDocument \<Rightarrow> int \<Rightarrow> string option" where
  "lineAt doc n = (if 0 \<le> n \<and> n < lineCount doc then Some (lineAt_text doc n) else None)"

text \<open>\<^verbatim>\<open>String.prototype.trim\<close>.\<close>

definition trim :: "string \<Rightarrow> string" where
  "trim t = rev (dropWhile js_whitespace (rev (dropWhile js_whitespace t)))"

text \<open>\<^verbatim>\<open>Number.prototype.toString\<close> on an integer.\<close>

fun decimal :: "nat \<Rightarrow> string" where
  "decimal n = (if n < 10 then [char_of (48 + n)] else decimal (n div 10) @ [char_of (48 + n mod 10)])"

definition toString :: "int \<Rightarrow> string" where
  "toString i = (if i < 0 then CHR ''-'' # decimal (nat (- i)) else decimal (nat i))"

text \<open>
  What the code does to the outside, in order: the manager's four event emitters, and the
  messages shown to the user.  An event carries the path of its \<^verbatim>\<open>file\<close>.
\<close>

datatype Effect =
    DidChange
  | DidAddBookmark string int int "string option" "string option" Uri
  | DidRemoveBookmark string int
  | DidUpdateBookmark string int int "int option" "string option" "string option"
  | ShowErrorMessage
  | ShowInformationMessage string

section \<open>The global bookmarks manager\<close>

text \<open>
  \<^verbatim>\<open>class GlobalBookmarksManager\<close>: the array \<^verbatim>\<open>_files\<close>, the value that
  \<^verbatim>\<open>Container.globalState\<close> holds under \<^verbatim>\<open>GLOBAL_BOOKMARKS_KEY\<close> (\<open>None\<close> when the key was
  never written), and the effects so far.  A \<^verbatim>\<open>GlobalFile\<close> object that the code holds by
  reference is its index in \<open>files\<close>.
\<close>

record Manager =
  files :: "GlobalFile list"
  globalState :: "string option"
  effects :: "Effect list"

definition fire :: "Effect \<Rightarrow> Manager \<Rightarrow> Manager" where
  "fire e m = m\<lparr>effects := effects m @ [e]\<rparr>"

text \<open>\<^verbatim>\<open>.replace(/\/+/g, "/")\<close>\<close>

fun collapseSlashes :: "string \<Rightarrow> string" where
  "collapseSlashes (c # d # rest) =
     (if c = CHR ''/'' \<and> d = CHR ''/'' then collapseSlashes (d # rest)
      else c # collapseSlashes (d # rest))"
| "collapseSlashes cs = cs"

text \<open>\<^verbatim>\<open>String.prototype.toLowerCase\<close> on the characters a \<^typ>\<open>char\<close> can hold.\<close>

definition toLowerCase :: "string \<Rightarrow> string" where
  "toLowerCase t =
     map (\<lambda>c. let n = (of_char c :: nat)
               in if (65 \<le> n \<and> n \<le> 90) \<or> (192 \<le> n \<and> n \<le> 222 \<and> n \<noteq> 215)
                  then char_of (n + 32) else c) t"

definition normalizePath :: "'j Env \<Rightarrow> string \<Rightarrow> string" where
  "normalizePath env filePath =
     (let normalized = collapseSlashes (map (\<lambda>c. if c = CHR 0x5C then CHR ''/'' else c) filePath)
      in if is_win32 env then toLowerCase normalized else normalized)"

text \<open>\<^verbatim>\<open>Container.globalState.get(GLOBAL_BOOKMARKS_KEY, "")\<close>\<close>

definition globalState_get :: "Manager \<Rightarrow> string \<Rightarrow> string" where
  "globalState_get m defaultValue = (case globalState m of None \<Rightarrow> defaultValue | Some v \<Rightarrow> v)"

definition load :: "'j Env \<Rightarrow> Manager \<Rightarrow> Manager" where
  "load env m =
     (let saved = globalState_get m '''' in
      if saved \<noteq> '''' then
        (case JSON_parse env saved of
           None \<Rightarrow> (fire ShowErrorMessage m)\<lparr>files := []\<rparr>
         | Some parsed \<Rightarrow>
             (case asFileArray env parsed of
                Some fs \<Rightarrow> m\<lparr>files := map (\<lambda>file. file\<lparr>path := normalizePath env (path file)\<rparr>) fs\<rparr>
              | None \<Rightarrow> m))
      else m)"

definition save :: "'j Env \<Rightarrow> Manager \<Rightarrow> Manager" where
  "save env m =
     (let toSave = map (\<lambda>file. file\<lparr>path := normalizePath env (path file)\<rparr>)
                     (filter (\<lambda>f. length (bookmarks f) > 0) (files m))
      in m\<lparr>globalState := Some (JSON_stringify env toSave)\<rparr>)"

text \<open>\<^verbatim>\<open>this._files.find((f) => f.path === filePath)\<close>, as the index of the object found.\<close>

fun findByPath :: "GlobalFile list \<Rightarrow> string \<Rightarrow> nat option" where
  "findByPath [] filePath = None"
| "findByPath (f # fs) filePath =
     (if path f = filePath then Some 0 else map_option Suc (findByPath fs filePath))"

definition getOrCreateFile :: "'j Env \<Rightarrow> Uri \<Rightarrow> Manager \<Rightarrow> nat \<times> Manager" where
  "getOrCreateFile env uri m =
     (let filePath = normalizePath env (fsPath env uri) in
      case findByPath (files m) filePath of
        Some i \<Rightarrow> (i, m)
      | None \<Rightarrow> (length (files m), m\<lparr>files := files m @ [\<lparr>path = filePath, bookmarks = []\<rparr>]\<rparr>))"

definition fromUri :: "'j Env \<Rightarrow> Uri option \<Rightarrow> Manager \<Rightarrow> nat option" where
  "fromUri env uri m =
     (case uri of
        None \<Rightarrow> None
      | Some u \<Rightarrow> findByPath (files m) (normalizePath env (fsPath env u)))"

definition setBookmarks :: "nat \<Rightarrow> Bookmark list \<Rightarrow> Manager \<Rightarrow> Manager" where
  "setBookmarks fi bs m = m\<lparr>files := (files m)[fi := (files m ! fi)\<lparr>bookmarks := bs\<rparr>]\<rparr>"

definition addBookmark :: "'j Env \<Rightarrow> Uri \<Rightarrow> int \<Rightarrow> int \<Rightarrow> string option \<Rightarrow> Manager \<Rightarrow> Manager" where
  "addBookmark env uri ln col lbl m =
     (let (fi, m1) = getOrCreateFile env uri m;
          file = files m1 ! fi;
          labelOrEmpty = (case lbl of None \<Rightarrow> '''' | Some l \<Rightarrow> l);
          pushed = bookmarks file @ [\<lparr>line = ln, column = col, label = labelOrEmpty\<rparr>];
          m2 = setBookmarks fi (sort_key line pushed) m1;
          linePreview =
            (case openTextDocument env uri of
               None \<Rightarrow> ''''
             | Some doc \<Rightarrow> (case lineAt doc ln of None \<Rightarrow> '''' | Some t \<Rightarrow> trim t))
      in fire (DidAddBookmark (path file) (ln + 1) (col + 1)
                 (if labelOrEmpty \<noteq> '''' then None else Some linePreview)
                 (if labelOrEmpty \<noteq> '''' then Some labelOrEmpty else None) uri) m2)"

definition removeBookmark :: "nat \<Rightarrow> int \<Rightarrow> int \<Rightarrow> Manager \<Rightarrow> Manager" where
  "removeBookmark fi index ln m =
     fire (DidRemoveBookmark (path (files m ! fi)) (ln + 1))
       (setBookmarks fi (splice1 index (bookmarks (files m ! fi))) m)"

text \<open>
  \<^verbatim>\<open>toggle(uri, line, column, label?): Promise<boolean>\<close>.  In the branch of an existing
  bookmark and a non-empty label the only assignment is
  \<^verbatim>\<open>file.bookmarks[index].label = label\<close>; the event that follows carries \<^verbatim>\<open>column + 1\<close>.
\<close>

definition toggle :: "'j Env \<Rightarrow> Uri \<Rightarrow> int \<Rightarrow> int \<Rightarrow> string option \<Rightarrow> Manager \<Rightarrow> bool \<times> Manager" where
  "toggle env uri ln col lbl m =
     (let (fi, m1) = getOrCreateFile env uri m;
          file = files m1 ! fi;
          index = indexOfBookmark file ln
      in if index \<ge> 0 then
           (let m2 =
                  (case lbl of
                     Some l \<Rightarrow>
                       (if l \<noteq> '''' then
                          fire (DidUpdateBookmark (path file) index (ln + 1) (Some (col + 1)) None (Some l))
                            (setBookmarks fi
                               ((bookmarks file)[nat index := (bookmarks file ! nat index)\<lparr>label := l\<rparr>])
                               m1)
                        else removeBookmark fi index ln m1)
                   | None \<Rightarrow> removeBookmark fi index ln m1)
            in (False, fire DidChange (save env m2)))
         else (True, fire DidChange (save env (addBookmark env uri ln col lbl m1))))"

definition getBookmarksForFile :: "'j Env \<Rightarrow> Uri \<Rightarrow> Manager \<Rightarrow> Bookmark list" where
  "getBookmarksForFile env uri m =
     (case fromUri env (Some uri) m of Some fi \<Rightarrow> bookmarks (files m ! fi) | None \<Rightarrow> [])"

definition notifyAndSave :: "'j Env \<Rightarrow> Manager \<Rightarrow> Manager" where
  "notifyAndSave env m = fire DidChange (save env m)"

section \<open>Commands and handlers of the extension\<close>

text \<open>
  The part of the \<^verbatim>\<open>onDidChangeTextDocument\<close> handler that keeps the global bookmarks of
  the edited document in step:
  \<^verbatim>\<open>const globalFile = globalBookmarksManager.fromUri(event.document.uri);
  if (globalFile && globalFile.bookmarks.length > 0) { ... if (globalUpdated) notifyAndSave(); }\<close>
\<close>

definition onDidChangeTextDocument_global ::
  "'j Env \<Rightarrow> bool \<Rightarrow> Uri \<Rightarrow> ContentChange list \<Rightarrow> TextDocument \<Rightarrow> Manager \<Rightarrow> Manager" where
  "onDidChangeTextDocument_global env keepBookmarksOnLineDelete documentUri contentChanges document m =
     (case fromUri env (Some documentUri) m of
        None \<Rightarrow> m
      | Some fi \<Rightarrow>
          (let globalFile = files m ! fi in
           if length (bookmarks globalFile) > 0 then
             (let (globalUpdated, globalFile') =
                    updateStickyGlobalBookmarks keepBookmarksOnLineDelete contentChanges globalFile document;
                  m1 = m\<lparr>files := (files m)[fi := globalFile']\<rparr>
              in if globalUpdated then notifyAndSave env m1 else m1)
           else m))"

text \<open>A \<^verbatim>\<open>vscode.Selection\<close>, as far as the commands read it: \<^verbatim>\<open>sel.active\<close>.\<close>

record Selection =
  active_line :: int
  active_character :: int

datatype ForceState = On | Off

text \<open>
  The body of the loop \<^verbatim>\<open>for (const sel of selections)\<close> of the command
  \<^verbatim>\<open>bookmarks.toggleGlobal\<close>, for a line that the loop has not met before.
\<close>

definition toggleGlobal_body ::
  "'j Env \<Rightarrow> Uri \<Rightarrow> ForceState option \<Rightarrow> Selection \<Rightarrow> Manager \<Rightarrow> Manager" where
  "toggleGlobal_body env u forceState sel m =
     (let ln = active_line sel in
      case forceState of
        Some On \<Rightarrow>
          (case fromUri env (Some u) m of
             None \<Rightarrow> addBookmark env u ln (active_character sel) None m
           | Some fi \<Rightarrow>
               if indexOfBookmark (files m ! fi) ln < 0
               then addBookmark env u ln (active_character sel) None m
               else m)
      | Some Off \<Rightarrow>
          (case fromUri env (Some u) m of
             None \<Rightarrow> m
           | Some fi \<Rightarrow>
               (let idx = indexOfBookmark (files m ! fi) ln in
                if idx \<ge> 0 then removeBookmark fi idx ln m else m))
      | None \<Rightarrow> snd (toggle env u ln (active_character sel) None m))"

text \<open>The loop itself, with \<^verbatim>\<open>toggledLines\<close> as it grows.\<close>

fun toggleGlobal_loop ::
  "'j Env \<Rightarrow> Uri \<Rightarrow> ForceState option \<Rightarrow> Selection list \<Rightarrow> int list \<Rightarrow> Manager \<Rightarrow> Manager" where
  "toggleGlobal_loop env u forceState [] toggledLines m = m"
| "toggleGlobal_loop env u forceState (sel # rest) toggledLines m =
     (let ln = active_line sel in
      if ln \<in> set toggledLines then toggleGlobal_loop env u forceState rest toggledLines m
      else toggleGlobal_loop env u forceState rest (toggledLines @ [ln])
             (toggleGlobal_body env u forceState sel m))"

text \<open>
  The command \<^verbatim>\<open>bookmarks.toggleGlobal\<close>.  The active editor, when there is one, is the
  URI of its document and its selections; \<open>toggleMode\<close> is the configuration value
  \<^verbatim>\<open>bookmarks.multicursor.toggleMode\<close>.
\<close>

definition toggleGlobal ::
  "'j Env \<Rightarrow> string \<Rightarrow> (Uri \<times> Selection list) option \<Rightarrow> Manager \<Rightarrow> Manager" where
  "toggleGlobal env toggleMode activeTextEditor m =
     (case activeTextEditor of
        None \<Rightarrow> fire (ShowInformationMessage ''Open a file first to toggle global bookmarks'') m
      | Some (u, selections) \<Rightarrow>
          if uri_scheme u = SEARCH_EDITOR_SCHEME env
          then fire (ShowInformationMessage ''You can't toggle global bookmarks in Search Editor'') m
          else
            (let forceState =
                   (if toggleMode = ''allLinesAtOnce'' \<and> length selections > 1 then
                      (let allBookmarked =
                             (case fromUri env (Some u) m of
                                None \<Rightarrow> False
                              | Some fi \<Rightarrow>
                                  list_all (\<lambda>sel. indexOfBookmark (files m ! fi) (active_line sel) \<ge> 0)
                                    selections)
                       in Some (if allBookmarked then Off else On))
                    else None)
             in notifyAndSave env (toggleGlobal_loop env u forceState selections [] m)))"

section \<open>Navigation\<close>

text \<open>
  \<^verbatim>\<open>enum Directions\<close> of \<^verbatim>\<open>core/constants.ts\<close>, which is not among the sources; the code
  names its two members.
\<close>

datatype Directions = Forward | Backward

text \<open>
  Modelled from the spec: the four numeric constants \<^verbatim>\<open>NO_BOOKMARKS\<close>,
  \<^verbatim>\<open>NO_MORE_BOOKMARKS\<close>, \<^verbatim>\<open>NO_BOOKMARKS_BEFORE\<close> and \<^verbatim>\<open>NO_BOOKMARKS_AFTER\<close> of
  \<^verbatim>\<open>core/constants.ts\<close> are missing; the spec says that they are four sentinels which the
  core must distinguish, so each is a constructor of its own.
\<close>

datatype Sentinel = NO_BOOKMARKS | NO_MORE_BOOKMARKS | NO_BOOKMARKS_BEFORE | NO_BOOKMARKS_AFTER

record Position =
  pos_line :: int
  pos_character :: int

text \<open>The resolved value, of type \<^verbatim>\<open>number | Position\<close>.\<close>

datatype NumberOrPosition = Number Sentinel | Pos Position

text \<open>
  \<^verbatim>\<open>for (const element of bookmarks) { if (element.line > currentPosition.line) {
      nextBookmark = new Position(element.line, element.column); break; } }\<close>
  \<open>None\<close> is the variable left \<^verbatim>\<open>undefined\<close>.
\<close>

fun scanForward :: "Bookmark list \<Rightarrow> Position \<Rightarrow> Position option" where
  "scanForward [] currentPosition = None"
| "scanForward (element # rest) currentPosition =
     (if line element > pos_line currentPosition
      then Some \<lparr>pos_line = line element, pos_character = column element\<rparr>
      else scanForward rest currentPosition)"

text \<open>
  \<^verbatim>\<open>for (let index = bookmarks.length - 1; index >= 0; index--)\<close>: the argument is the
  array from its last element to its first.
\<close>

fun scanBackward :: "Bookmark list \<Rightarrow> Position \<Rightarrow> Position option" where
  "scanBackward [] currentPosition = None"
| "scanBackward (element # rest) currentPosition =
     (if line element < pos_line currentPosition
      then Some \<lparr>pos_line = line element, pos_character = column element\<rparr>
      else scanBackward rest currentPosition)"

text \<open>
  \<^verbatim>\<open>nextBookmark(bookmarks, currentPosition, direction): Promise<number | Position>\<close>.
  The two configuration values are the first arguments; \<open>None\<close> for the array is
  \<^verbatim>\<open>undefined\<close>, and \<open>Inl\<close> is the rejected promise.
\<close>

definition nextBookmark ::
  "bool \<Rightarrow> bool \<Rightarrow> Bookmark list option \<Rightarrow> Position \<Rightarrow> Directions \<Rightarrow> string + NumberOrPosition" where
  "nextBookmark navigateThroughAllFiles wrapNavigation bookmarksArg currentPosition direction =
     (case bookmarksArg of
        None \<Rightarrow> Inl ''typeof bookmarks == \"undefined\"''
      | Some bms \<Rightarrow>
          if length bms = 0 then
            (if navigateThroughAllFiles then Inr (Number NO_BOOKMARKS) else Inr (Pos currentPosition))
          else if direction = Forward then
            (case scanForward bms currentPosition of
               None \<Rightarrow>
                 if navigateThroughAllFiles then Inr (Number NO_MORE_BOOKMARKS)
                 else if \<not> wrapNavigation then Inr (Number NO_BOOKMARKS_AFTER)
                 else Inr (Pos \<lparr>pos_line = line (bms ! 0), pos_character = column (bms ! 0)\<rparr>)
             | Some next \<Rightarrow> Inr (Pos next))
          else
            (case scanBackward (rev bms) currentPosition of
               None \<Rightarrow>
                 if navigateThroughAllFiles then Inr (Number NO_MORE_BOOKMARKS)
                 else if \<not> wrapNavigation then Inr (Number NO_BOOKMARKS_BEFORE)
                 else Inr (Pos \<lparr>pos_line = line (bms ! (length bms - 1)),
                                 pos_character = column (bms ! (length bms - 1))\<rparr>)
             | Some next \<Rightarrow> Inr (Pos next)))"

section \<open>Listing the bookmarks of a file\<close>

text \<open>
  \<^verbatim>\<open>core/file.ts\<close> is not among the sources; \<^verbatim>\<open>listBookmarks\<close> and \<^verbatim>\<open>fileSystemData\<close>
  show the fields of a \<^verbatim>\<open>File\<close>: those of a \<^verbatim>\<open>GlobalFile\<close> and an optional \<^verbatim>\<open>uri\<close>.
\<close>

record File = GlobalFile +
  file_uri :: "Uri option"

record WorkspaceFolder =
  folder_uri :: Uri

record BookmarkQuickPickItem =
  description :: string
  item_label :: string
  detail :: string
  item_uri :: Uri

text \<open>How a promise ends: with a value, with a rejection, or never.\<close>

datatype 'a Promise = Resolved 'a | Rejected | Pending

definition uriWith :: "Uri \<Rightarrow> string \<Rightarrow> string \<Rightarrow> Uri" where
  "uriWith u prefix filePath =
     (let newPrefix = (if prefix = ''/'' then '''' else prefix)
      in u\<lparr>uri_path := newPrefix @ ''/'' @ filePath\<rparr>)"

definition uriExists :: "'j Env \<Rightarrow> Uri \<Rightarrow> bool" where
  "uriExists env u = (if uri_scheme u = UNTITLED_SCHEME env then True else fs_stat env u)"

definition endsWithSlash :: "string \<Rightarrow> bool" where
  "endsWithSlash p = (p \<noteq> [] \<and> last p = CHR ''/'')"

text \<open>
  The first loop of \<^verbatim>\<open>listBookmarks\<close>, over \<^verbatim>\<open>file.bookmarks\<close>: a bookmark inside the
  document gives an item, one outside gives its one-based line in \<^verbatim>\<open>invalids\<close>.  \<open>None\<close>
  is \<^verbatim>\<open>doc.lineAt\<close> throwing, which a negative line makes it do.
\<close>

fun classifyLoop ::
  "'j Env \<Rightarrow> TextDocument \<Rightarrow> string \<Rightarrow> Uri \<Rightarrow> Bookmark list \<Rightarrow>
     BookmarkQuickPickItem list \<Rightarrow> int list \<Rightarrow> (BookmarkQuickPickItem list \<times> int list) option" where
  "classifyLoop env doc filePath uriDocBookmark [] items invalids = Some (items, invalids)"
| "classifyLoop env doc filePath uriDocBookmark (b # rest) items invalids =
     (let bookmarkLine = line b + 1;
          bookmarkColumn = column b + 1
      in if bookmarkLine \<le> lineCount doc then
           (case lineAt doc (bookmarkLine - 1) of
              None \<Rightarrow> None
            | Some t \<Rightarrow>
                (let lineText = trim t;
                     desc = ''(Ln '' @ toString bookmarkLine @ '', Col '' @ toString bookmarkColumn @ '')''
                 in classifyLoop env doc filePath uriDocBookmark rest
                      (items @ [\<lparr>description = desc,
                                  item_label = (if label b = '''' then lineText
                                                else codicons_tag env @ '' '' @ label b),
                                  detail = filePath,
                                  item_uri = uriDocBookmark\<rparr>])
                      invalids))
         else classifyLoop env doc filePath uriDocBookmark rest items (invalids @ [bookmarkLine]))"

text \<open>
  \<^verbatim>\<open>file.bookmarks.indexOf(<Bookmark>{ line: invalids[indexI] - 1 })\<close>.
  \<^verbatim>\<open>Array.prototype.indexOf\<close> compares with strict equality, which on objects is identity.
  Its argument here is an object that the literal creates at the call, so no element of
  the array is identical to it, and the result is \<open>-1\<close> whatever the array holds.
\<close>

definition indexOf_objectLiteral :: "Bookmark list \<Rightarrow> int \<Rightarrow> int" where
  "indexOf_objectLiteral bs ln = -1"

text \<open>
  \<^verbatim>\<open>for (let indexI = 0; indexI < invalids.length; indexI++) {
      idxInvalid = file.bookmarks.indexOf(...); file.bookmarks.splice(idxInvalid, 1); }\<close>
\<close>

fun pruneLoop :: "int list \<Rightarrow> Bookmark list \<Rightarrow> Bookmark list" where
  "pruneLoop [] bs = bs"
| "pruneLoop (invalidLine # rest) bs =
     (let idxInvalid = indexOf_objectLiteral bs (invalidLine - 1)
      in pruneLoop rest (splice1 idxInvalid bs))"

text \<open>
  The URI of the document of a file, as \<^verbatim>\<open>listBookmarks\<close> computes it into
  \<^verbatim>\<open>uriDocBookmark\<close>: \<^verbatim>\<open>file.uri\<close> when the file has one, else \<^verbatim>\<open>Uri.file(file.path)\<close>
  without a workspace folder, else the path below the folder.
\<close>

definition uriDocBookmark :: "'j Env \<Rightarrow> File \<Rightarrow> WorkspaceFolder option \<Rightarrow> Uri" where
  "uriDocBookmark env file workspaceFolder =
     (case file_uri file of
        Some u \<Rightarrow> u
      | None \<Rightarrow>
          (case workspaceFolder of
             None \<Rightarrow> Uri_file env (path file)
           | Some folder \<Rightarrow>
               (let prefix = (if endsWithSlash (uri_path (folder_uri folder))
                              then uri_path (folder_uri folder)
                              else uri_path (folder_uri folder) @ ''/'')
                in uriWith (folder_uri folder) prefix (path file))))"

text \<open>
  \<^verbatim>\<open>listBookmarks(file, workspaceFolder)\<close>: the file as the call leaves it, and how the
  returned promise ends (\<open>Resolved None\<close> is \<^verbatim>\<open>resolve(undefined)\<close>).  The promise stays
  pending when the document cannot be opened or the callback throws, since nothing
  handles either.
\<close>

definition listBookmarks ::
  "'j Env \<Rightarrow> File \<Rightarrow> WorkspaceFolder option \<Rightarrow> File \<times> BookmarkQuickPickItem list option Promise" where
  "listBookmarks env file workspaceFolder =
     (if length (bookmarks file) = 0 then (file, Resolved None)
      else if \<not> uriExists env (uriDocBookmark env file workspaceFolder) then (file, Resolved None)
      else
        (case openTextDocument env (uriDocBookmark env file workspaceFolder) of
           None \<Rightarrow> (file, Pending)
         | Some doc \<Rightarrow>
             (case classifyLoop env doc (path file) (uriDocBookmark env file workspaceFolder)
                     (bookmarks file) [] [] of
                None \<Rightarrow> (file, Pending)
              | Some (items, invalids) \<Rightarrow>
                  (file\<lparr>bookmarks := pruneLoop invalids (bookmarks file)\<rparr>,
                   Resolved (Some items)))))"

section \<open>Loading the bookmarks of the project scope\<close>

text \<open>
  \<^verbatim>\<open>storage/workspaceState.ts\<close>.  The class \<^verbatim>\<open>Controller\<close> is not among the sources, so a
  controller is a value of any type \<open>'c\<close>, and what the function needs of it and of the
  workspace is a record: the setting \<^verbatim>\<open>bookmarks.saveBookmarksInProject\<close>, the number of
  workspace folders, the value stored under \<^verbatim>\<open>"bookmarks"\<close> in the workspace state, the
  controller that \<^verbatim>\<open>new Controller(workspaceFolder)\<close> makes, \<^verbatim>\<open>loadFrom\<close> (the controller as
  the call leaves it, and whether it threw), whether \<^verbatim>\<open>.vscode/bookmarks.json\<close> exists and
  its decoded text (\<open>None\<close> when reading throws), and whether a parsed value can be spread
  into an array.
\<close>

record ('j, 'c) Project =
  saveBookmarksInProject_setting :: bool
  workspaceFolders_length :: nat
  workspaceState_bookmarks :: "string option"
  new_Controller :: 'c
  loadFrom :: "'j \<Rightarrow> bool \<Rightarrow> 'c \<Rightarrow> 'c \<times> bool"
  bookmarksFile_exists :: bool
  bookmarksFile_text :: "string option"
  is_iterable :: "'j \<Rightarrow> bool"

definition canSaveBookmarksInProject :: "('j, 'c) Project \<Rightarrow> bool" where
  "canSaveBookmarksInProject proj =
     (let saveBookmarksInProject = saveBookmarksInProject_setting proj
      in if saveBookmarksInProject \<and> \<not> (workspaceFolders_length proj > 0) then False
         else saveBookmarksInProject)"

text \<open>
  \<^verbatim>\<open>fileSystemData(wsFolder)\<close> of \<^verbatim>\<open>utils/fs.ts\<close>, called with a workspace folder while the
  argument of the first log line of \<^verbatim>\<open>loadBookmarks\<close> is built: the messages it shows, and
  whether it throws (the two parsed values are spread into one array outside the
  \<^verbatim>\<open>try\<close> blocks).  A value that failed to parse leaves the empty array in place.
\<close>

definition fileSystemData ::
  "'j Env \<Rightarrow> ('j, 'c) Project \<Rightarrow> string option \<Rightarrow> Effect list \<times> bool" where
  "fileSystemData env proj globalBookmarks =
     (let ws = JSON_parse env (case workspaceState_bookmarks proj of None \<Rightarrow> ''[]'' | Some v \<Rightarrow> v);
          gs = JSON_parse env (case globalBookmarks of None \<Rightarrow> ''[]'' | Some v \<Rightarrow> v);
          shown = (if ws = None then [ShowErrorMessage] else [])
                    @ (if gs = None then [ShowErrorMessage] else []);
          spreadable = (\<lambda>v. case v of None \<Rightarrow> True | Some j \<Rightarrow> is_iterable proj j)
      in (shown, \<not> (spreadable ws \<and> spreadable gs)))"

text \<open>\<^verbatim>\<open>readFileUri(uri)\<close>: the bytes of the file, decoded and parsed; \<open>None\<close> is a throw.\<close>

definition readFileUri :: "'j Env \<Rightarrow> ('j, 'c) Project \<Rightarrow> 'j option" where
  "readFileUri env proj =
     (case bookmarksFile_text proj of None \<Rightarrow> None | Some t \<Rightarrow> JSON_parse env t)"

text \<open>
  \<^verbatim>\<open>loadBookmarks(workspaceFolder?): Promise<Controller>\<close>: the messages shown, and how the
  promise ends.  \<open>hasWorkspaceFolder\<close> says whether the argument is given; without it the
  branch of the project file throws at \<^verbatim>\<open>workspaceFolder.uri\<close>.
\<close>

definition loadBookmarks ::
  "'j Env \<Rightarrow> ('j, 'c) Project \<Rightarrow> string option \<Rightarrow> bool \<Rightarrow> Effect list \<times> 'c Promise" where
  "loadBookmarks env proj globalBookmarks hasWorkspaceFolder =
     (let saveBookmarksInProject = canSaveBookmarksInProject proj;
          newController = new_Controller proj;
          (shown, threw) = (if hasWorkspaceFolder then fileSystemData env proj globalBookmarks
                            else ([], False))
      in if threw then (shown, Rejected)
         else if saveBookmarksInProject then
           (if \<not> hasWorkspaceFolder then (shown, Rejected)
            else if \<not> bookmarksFile_exists proj then (shown, Resolved newController)
            else
              (case readFileUri env proj of
                 None \<Rightarrow> (shown @ [ShowErrorMessage], Resolved newController)
               | Some contents \<Rightarrow>
                   (let (c, loadThrew) = loadFrom proj contents True newController
                    in if loadThrew then (shown @ [ShowErrorMessage], Resolved c)
                       else (shown, Resolved c))))
         else
           (let savedBookmarks = (case workspaceState_bookmarks proj of None \<Rightarrow> '''' | Some v \<Rightarrow> v)
            in if savedBookmarks \<noteq> '''' then
                 (case JSON_parse env savedBookmarks of
                    None \<Rightarrow> (shown, Rejected)
                  | Some parsed \<Rightarrow>
                      (let (c, loadThrew) = loadFrom proj parsed False newController
                       in if loadThrew then (shown, Rejected) else (shown, Resolved c)))
               else (shown, Resolved newController)))"

section \<open>Definitions on the side of the specification, and examples\<close>

text \<open>
  The specification's account of a line-span deletion \<open>[s, e)\<close>, for comparison with the
  loops above.  It says that with the keep policy a marker of the deleted range is
  preserved but collapsed onto \<open>endLine\<close>, unless another marker already sits at \<open>endLine\<close>,
  in which case the colliding marker is destroyed.  So at most one marker of the deleted
  range survives, the first one, and only when the keep policy is on and no marker sits
  at \<open>e\<close>.
\<close>

definition spec_collapsed :: "bool \<Rightarrow> int \<Rightarrow> int \<Rightarrow> Bookmark list \<Rightarrow> Bookmark list" where
  "spec_collapsed keep s e bs =
     (if keep \<and> e \<notin> line ` set bs \<and> filter (\<lambda>b. s \<le> line b \<and> line b < e) bs \<noteq> []
      then [hd (filter (\<lambda>b. s \<le> line b \<and> line b < e) bs)] else [])"

text \<open>The condition of the two shifting loops, as a predicate of the bookmark's line.\<close>

definition shiftCondition :: "int \<Rightarrow> nat \<Rightarrow> int \<Rightarrow> bool" where
  "shiftCondition L C x = ((x > L \<and> C > 0) \<or> (x \<ge> L \<and> C = 0))"

text \<open>
  The store after the deletion, in the specification's words: the markers before the
  range stay, the markers of the range are destroyed or collapsed as above, and every
  surviving marker past \<open>startLine\<close> is shifted by \<open>-d\<close> with \<open>d = e - s\<close>, which takes a
  collapsed marker from \<open>e\<close> to \<open>s\<close>.
\<close>

definition spec_afterDeletion :: "bool \<Rightarrow> int \<Rightarrow> int \<Rightarrow> Bookmark list \<Rightarrow> Bookmark list" where
  "spec_afterDeletion keep s e bs =
     filter (\<lambda>b. line b < s) bs
       @ map (\<lambda>b. b\<lparr>line := s\<rparr>) (spec_collapsed keep s e bs)
       @ map (\<lambda>b. b\<lparr>line := line b - (e - s)\<rparr>) (filter (\<lambda>b. e \<le> line b) bs)"

text \<open>
  The invariant of a store in the specification: the sequence is strictly sorted
  ascending by line and no two markers share a line.
\<close>

definition sorted_lines :: "Bookmark list \<Rightarrow> bool" where
  "sorted_lines bs = (sorted_wrt (<) (map line bs) \<and> distinct (map line bs))"

text \<open>The invariant for every file of the global manager.\<close>

definition store_inv :: "Manager \<Rightarrow> bool" where
  "store_inv m = (\<forall>f\<in>set (files m). sorted_lines (bookmarks f))"

text \<open>A document given by its lines, for the examples.\<close>

definition document_of_lines :: "string list \<Rightarrow> TextDocument" where
  "document_of_lines ls =
     \<lparr>lineCount = int (length ls),
      lineAt_text = (\<lambda>n. if 0 \<le> n \<and> n < int (length ls) then ls ! nat n else [])\<rparr>"

text \<open>
  The text of a persisted blob for the examples: one file whose two bookmarks are stored
  with line 5 before line 2.
\<close>

definition example_blob :: string where
  "example_blob =
     ''[{\"path\":\"/a\",\"bookmarks\":[{\"line\":5,\"column\":0,\"label\":\"\"},{\"line\":2,\"column\":0,\"label\":\"\"}]}]''"

text \<open>
  A host for the examples: not Windows, no document can be opened, the file-system path
  of a URI is its path.  Its JSON routines are stand-ins: \<open>JSON_parse\<close> knows the value of
  \<open>example_blob\<close> and rejects every other text, \<open>JSON_stringify\<close> yields one fixed text.
\<close>

definition example_env :: "GlobalFile list Env" where
  "example_env =
     \<lparr>is_win32 = False,
      JSON_parse = (\<lambda>t. if t = example_blob
                         then Some [\<lparr>path = ''/a'', bookmarks = [\<lparr>line = 5, column = 0, label = ''''\<rparr>,
                                       \<lparr>line = 2, column = 0, label = ''''\<rparr>]\<rparr>]
                         else None),
      asFileArray = Some,
      JSON_stringify = (\<lambda>fs. ''(the serialised files)''),
      fsPath = uri_path,
      Uri_file = (\<lambda>p. \<lparr>uri_scheme = ''file'', uri_path = p\<rparr>),
      fs_stat = (\<lambda>u. True),
      openTextDocument = (\<lambda>u. None),
      SEARCH_EDITOR_SCHEME = ''search-editor'',
      UNTITLED_SCHEME = ''untitled'',
      codicons_tag = ''$(tag)''\<rparr>"

text \<open>
  A project for the examples: nothing is saved in the project, no folder is open, a
  controller is the value that \<^verbatim>\<open>loadFrom\<close> was given, and the workspace state holds a text
  that is not JSON.
\<close>

definition example_project :: "(GlobalFile list, GlobalFile list) Project" where
  "example_project =
     \<lparr>saveBookmarksInProject_setting = False,
      workspaceFolders_length = 0,
      workspaceState_bookmarks = Some ''{'',
      new_Controller = [],
      loadFrom = (\<lambda>parsed relativePath c. (parsed, False)),
      bookmarksFile_exists = False,
      bookmarksFile_text = None,
      is_iterable = (\<lambda>parsed. True)\<rparr>"

section \<open>Properties of the sticky adjustment\<close>

declare removeLoop.simps [simp del]

lemma indexOfFrom_notin:
  "ln \<notin> line ` set bs \<Longrightarrow> indexOfFrom bs ln i = -1"
  by (induction bs arbitrary: i) auto

lemma indexOfFrom_in:
  "ln \<in> line ` set bs \<Longrightarrow>
     indexOfFrom bs ln i = i + int (length (takeWhile (\<lambda>b. line b \<noteq> ln) bs))"
  by (induction bs arbitrary: i) auto

lemma indexOfFrom_found_iff:
  "0 \<le> i \<Longrightarrow> (indexOfFrom bs ln i > -1) = (ln \<in> line ` set bs)"
  by (cases "ln \<in> line ` set bs") (simp_all add: indexOfFrom_in indexOfFrom_notin)

lemma indexOfBookmark_found_iff:
  "(indexOfBookmark f ln > -1) = (ln \<in> line ` set (bookmarks f))"
  by (simp add: indexOfBookmark_def indexOfFrom_found_iff)

lemma splice1_nat:
  "n \<le> length xs \<Longrightarrow> splice1 (int n) xs = take n xs @ drop (Suc n) xs"
  by (simp add: splice1_def Let_def min_def)

lemma remove_first_distinct:
  "distinct (map line bs) \<Longrightarrow> ln \<in> line ` set bs \<Longrightarrow>
     take (length (takeWhile (\<lambda>b. line b \<noteq> ln) bs)) bs
       @ drop (Suc (length (takeWhile (\<lambda>b. line b \<noteq> ln) bs))) bs
     = filter (\<lambda>b. line b \<noteq> ln) bs"
proof (induction bs)
  case Nil
  then show ?case by simp
next
  case (Cons b bs)
  show ?case
  proof (cases "line b = ln")
    case True
    with Cons.prems have "ln \<notin> line ` set bs" by auto
    then have "filter (\<lambda>b. line b \<noteq> ln) bs = bs"
      by (auto simp: filter_id_conv)
    with True show ?thesis by simp
  next
    case False
    with Cons show ?thesis by auto
  qed
qed

lemma splice1_indexOfBookmark:
  assumes "distinct (map line (bookmarks f))" "ln \<in> line ` set (bookmarks f)"
  shows "splice1 (indexOfBookmark f ln) (bookmarks f) = filter (\<lambda>b. line b \<noteq> ln) (bookmarks f)"
proof -
  let ?n = "length (takeWhile (\<lambda>b. line b \<noteq> ln) (bookmarks f))"
  have "indexOfBookmark f ln = int ?n"
    using assms(2) by (simp add: indexOfBookmark_def indexOfFrom_in)
  moreover have "?n \<le> length (bookmarks f)"
    by (rule length_takeWhile_le)
  ultimately show ?thesis
    using remove_first_distinct [OF assms] by (simp add: splice1_nat)
qed

lemma removeLoop_splicing:
  "distinct (map line (bookmarks f)) \<Longrightarrow> \<not> keep \<or> e \<in> line ` set (bookmarks f) \<Longrightarrow>
   removeLoop keep ln e f u =
     (f\<lparr>bookmarks := filter (\<lambda>b. \<not> (ln \<le> line b \<and> line b < e)) (bookmarks f)\<rparr>,
      u \<or> (\<exists>b\<in>set (bookmarks f). ln \<le> line b \<and> line b < e))"
proof (induction keep ln e f u rule: removeLoop.induct)
  case (1 keep ln e f u)
  show ?case
  proof (cases "ln < e")
    case False
    then have "filter (\<lambda>b. \<not> (ln \<le> line b \<and> line b < e)) (bookmarks f) = bookmarks f"
      by (auto simp: filter_id_conv)
    with False show ?thesis by (subst removeLoop.simps) auto
  next
    case lt: True
    show ?thesis
    proof (cases "ln \<in> line ` set (bookmarks f)")
      case False
      then have nf: "\<not> indexOfBookmark f ln > -1" by (simp add: indexOfBookmark_found_iff)
      have nl: "line b \<noteq> ln" if "b \<in> set (bookmarks f)" for b
        using False that by auto
      have eq: "filter (\<lambda>b. \<not> (ln + 1 \<le> line b \<and> line b < e)) (bookmarks f)
                 = filter (\<lambda>b. \<not> (ln \<le> line b \<and> line b < e)) (bookmarks f)"
      proof (rule filter_cong [OF refl])
        fix b assume "b \<in> set (bookmarks f)"
        from nl [OF this] show "(\<not> (ln + 1 \<le> line b \<and> line b < e)) = (\<not> (ln \<le> line b \<and> line b < e))"
          by arith
      qed
      have ex: "(\<exists>b\<in>set (bookmarks f). ln + 1 \<le> line b \<and> line b < e)
                 = (\<exists>b\<in>set (bookmarks f). ln \<le> line b \<and> line b < e)"
      proof -
        have "(ln + 1 \<le> line b \<and> line b < e) = (ln \<le> line b \<and> line b < e)"
          if "b \<in> set (bookmarks f)" for b
          using nl [OF that] by arith
        then show ?thesis by blast
      qed
      have "removeLoop keep ln e f u = removeLoop keep (ln + 1) e f u"
        using lt nf by (subst removeLoop.simps) (simp add: Let_def)
      also have "\<dots> = (f\<lparr>bookmarks := filter (\<lambda>b. \<not> (ln + 1 \<le> line b \<and> line b < e)) (bookmarks f)\<rparr>,
                u \<or> (\<exists>b\<in>set (bookmarks f). ln + 1 \<le> line b \<and> line b < e))"
        using "1.IH"(4) [OF lt refl] nf "1.prems" by simp
      finally show ?thesis by (simp only: eq ex)
    next
      case True
      then have fnd: "indexOfBookmark f ln > -1" by (simp add: indexOfBookmark_found_iff)
      let ?f' = "f\<lparr>bookmarks := splice1 (indexOfBookmark f ln) (bookmarks f)\<rparr>"
      have sp: "bookmarks ?f' = filter (\<lambda>b. line b \<noteq> ln) (bookmarks f)"
        using splice1_indexOfBookmark [OF "1.prems"(1) True] by simp
      have d': "distinct (map line (bookmarks ?f'))"
        unfolding sp using "1.prems"(1) by (simp add: distinct_map_filter)
      have k': "\<not> keep \<or> e \<in> line ` set (bookmarks ?f')"
        unfolding sp using "1.prems"(2) lt by auto
      have step: "removeLoop keep ln e f u = removeLoop keep (ln + 1) e ?f' True"
        using lt fnd "1.prems"(2)
        by (subst removeLoop.simps) (auto simp: Let_def indexOfBookmark_found_iff)
      have rec: "removeLoop keep (ln + 1) e ?f' True =
          (?f'\<lparr>bookmarks := filter (\<lambda>b. \<not> (ln + 1 \<le> line b \<and> line b < e)) (bookmarks ?f')\<rparr>,
            True \<or> (\<exists>b\<in>set (bookmarks ?f'). ln + 1 \<le> line b \<and> line b < e))"
      proof (cases keep)
        case True
        with "1.prems"(2) have ha: "indexOfBookmark f e > -1"
          by (simp add: indexOfBookmark_found_iff)
        show ?thesis
          using "1.IH"(2) [OF lt refl fnd True refl _ d' k'] ha by simp
      next
        case False
        show ?thesis
          using "1.IH"(3) [OF lt refl fnd False d' k'] by simp
      qed
      have eq: "filter (\<lambda>b. \<not> (ln + 1 \<le> line b \<and> line b < e)) (filter (\<lambda>b. line b \<noteq> ln) (bookmarks f))
                 = filter (\<lambda>b. \<not> (ln \<le> line b \<and> line b < e)) (bookmarks f)"
        using lt by (simp, intro filter_cong) auto
      from True lt have ex: "\<exists>b\<in>set (bookmarks f). ln \<le> line b \<and> line b < e" by auto
      show ?thesis
        unfolding step rec using eq ex sp by simp
    qed
  qed
qed

lemma sorted_split_filter:
  "sorted_wrt (<) (map line bs) \<Longrightarrow> s \<le> e \<Longrightarrow>
     filter (\<lambda>b. \<not> (s \<le> line b \<and> line b < e)) bs
       = filter (\<lambda>b. line b < s) bs @ filter (\<lambda>b. e \<le> line b) bs"
proof (induction bs)
  case Nil
  then show ?case by simp
next
  case (Cons b bs)
  then have above: "\<forall>x\<in>set bs. line b < line x" and srt: "sorted_wrt (<) (map line bs)"
    by auto
  show ?case
  proof (cases "line b < s")
    case True
    with Cons srt show ?thesis by simp
  next
    case False
    with above have none: "filter (\<lambda>b. line b < s) bs = []"
      by (auto simp: filter_empty_conv)
    show ?thesis
      using Cons.IH [OF srt Cons.prems(2)] False none Cons.prems(2) by auto
  qed
qed

lemma update_at_line_sorted:
  "sorted_wrt (<) (map line bs) \<Longrightarrow> ln \<in> line ` set bs \<Longrightarrow>
     bs[length (takeWhile (\<lambda>b. line b \<noteq> ln) bs)
          := (bs ! length (takeWhile (\<lambda>b. line b \<noteq> ln) bs))\<lparr>line := e\<rparr>]
       = filter (\<lambda>b. line b < ln) bs
           @ [(hd (filter (\<lambda>b. line b = ln) bs))\<lparr>line := e\<rparr>]
           @ filter (\<lambda>b. ln < line b) bs"
proof (induction bs)
  case Nil
  then show ?case by simp
next
  case (Cons b bs)
  then have above: "\<forall>x\<in>set bs. line b < line x" and srt: "sorted_wrt (<) (map line bs)"
    by auto
  show ?case
  proof (cases "line b = ln")
    case True
    with above have "filter (\<lambda>b. line b < ln) bs = []" "filter (\<lambda>b. ln < line b) bs = bs"
      by (auto simp: filter_empty_conv filter_id_conv)
    with True show ?thesis by simp
  next
    case False
    with Cons.prems(2) have mem: "ln \<in> line ` set bs" by auto
    with above have "line b < ln" by auto
    with Cons.IH [OF srt mem] False show ?thesis by simp
  qed
qed

lemma hd_inrange_sorted:
  "sorted_wrt (<) (map line bs) \<Longrightarrow> ln \<in> line ` set bs \<Longrightarrow> ln < e \<Longrightarrow>
     filter (\<lambda>b. ln \<le> line b \<and> line b < e) bs \<noteq> [] \<and>
     hd (filter (\<lambda>b. ln \<le> line b \<and> line b < e) bs) = hd (filter (\<lambda>b. line b = ln) bs)"
proof (induction bs)
  case Nil
  then show ?case by simp
next
  case (Cons b bs)
  then have above: "\<forall>x\<in>set bs. line b < line x" and srt: "sorted_wrt (<) (map line bs)"
    by auto
  show ?case
  proof (cases "line b = ln")
    case True
    with Cons.prems(3) show ?thesis by simp
  next
    case False
    with Cons.prems(2) have mem: "ln \<in> line ` set bs" by auto
    with above have "line b < ln" by auto
    with Cons.IH [OF srt mem Cons.prems(3)] False show ?thesis by simp
  qed
qed

lemma strict_sorted_distinct_lines:
  "sorted_wrt (<) (map line bs) \<Longrightarrow> distinct (map line bs)"
  using strict_sorted_iff by blast

lemma removeLoop_collapse:
  assumes "sorted_wrt (<) (map line (bookmarks f))" "e \<notin> line ` set (bookmarks f)" "ln \<le> e"
  shows "removeLoop True ln e f u =
     (f\<lparr>bookmarks := filter (\<lambda>b. line b < ln) (bookmarks f)
                        @ map (\<lambda>b. b\<lparr>line := e\<rparr>) (spec_collapsed True ln e (bookmarks f))
                        @ filter (\<lambda>b. e \<le> line b) (bookmarks f)\<rparr>,
      u \<or> (\<exists>b\<in>set (bookmarks f). ln \<le> line b \<and> line b < e))"
  using assms
proof (induction "True" ln e f u rule: removeLoop.induct)
  case (1 ln e f u)
  let ?bs = "bookmarks f"
  show ?case
  proof (cases "ln < e")
    case False
    with "1.prems" have le: "ln = e" by simp
    have "filter (\<lambda>b. line b < e) ?bs @ filter (\<lambda>b. e \<le> line b) ?bs = ?bs"
      using sorted_split_filter [OF "1.prems"(1), of e e] by (simp add: filter_id_conv)
    then show ?thesis
      unfolding le by (subst removeLoop.simps) (auto simp: spec_collapsed_def)
  next
    case lt: True
    show ?thesis
    proof (cases "ln \<in> line ` set ?bs")
      case False
      then have nf: "\<not> indexOfBookmark f ln > -1" by (simp add: indexOfBookmark_found_iff)
      have nl: "line b \<noteq> ln" if "b \<in> set ?bs" for b
        using False that by auto
      have rng: "(ln + 1 \<le> line b \<and> line b < e) = (ln \<le> line b \<and> line b < e)"
        if "b \<in> set ?bs" for b
        using nl [OF that] by arith
      have f1: "filter (\<lambda>b. line b < ln + 1) ?bs = filter (\<lambda>b. line b < ln) ?bs"
      proof (rule filter_cong [OF refl])
        fix b assume "b \<in> set ?bs"
        from nl [OF this] show "(line b < ln + 1) = (line b < ln)" by arith
      qed
      have f2: "filter (\<lambda>b. ln + 1 \<le> line b \<and> line b < e) ?bs
                 = filter (\<lambda>b. ln \<le> line b \<and> line b < e) ?bs"
        by (rule filter_cong [OF refl]) (rule rng)
      have c: "spec_collapsed True (ln + 1) e ?bs = spec_collapsed True ln e ?bs"
        by (simp add: spec_collapsed_def f2)
      have ex: "(\<exists>b\<in>set ?bs. ln + 1 \<le> line b \<and> line b < e)
                 = (\<exists>b\<in>set ?bs. ln \<le> line b \<and> line b < e)"
        using rng by blast
      have "removeLoop True ln e f u = removeLoop True (ln + 1) e f u"
        using lt nf by (subst removeLoop.simps) (simp add: Let_def)
      also have "\<dots> = (f\<lparr>bookmarks := filter (\<lambda>b. line b < ln + 1) ?bs
                        @ map (\<lambda>b. b\<lparr>line := e\<rparr>) (spec_collapsed True (ln + 1) e ?bs)
                        @ filter (\<lambda>b. e \<le> line b) ?bs\<rparr>,
                  u \<or> (\<exists>b\<in>set ?bs. ln + 1 \<le> line b \<and> line b < e))"
        using "1.hyps"(4) [OF lt refl _ "1.prems"(1,2)] nf lt by simp
      finally show ?thesis by (simp only: f1 c ex)
    next
      case True
      then have fnd: "indexOfBookmark f ln > -1" by (simp add: indexOfBookmark_found_iff)
      have nha: "\<not> indexOfBookmark f e > -1"
        using "1.prems"(2) by (simp add: indexOfBookmark_found_iff)
      let ?n = "length (takeWhile (\<lambda>b. line b \<noteq> ln) ?bs)"
      let ?b = "hd (filter (\<lambda>b. line b = ln) ?bs)"
      let ?f' = "updateBookmarkLine f (indexOfBookmark f ln) e"
      have idx: "indexOfBookmark f ln = int ?n"
        using True by (simp add: indexOfBookmark_def indexOfFrom_in)
      have bs': "bookmarks ?f' = filter (\<lambda>b. line b < ln) ?bs @ [?b\<lparr>line := e\<rparr>]
                                  @ filter (\<lambda>b. ln < line b) ?bs"
        using update_at_line_sorted [OF "1.prems"(1) True, of e]
        by (simp add: updateBookmarkLine_def idx)
      have dist: "distinct (map line ?bs)"
        by (rule strict_sorted_distinct_lines) (rule "1.prems"(1))
      have d': "distinct (map line (bookmarks ?f'))"
        unfolding bs' using dist "1.prems"(2)
        by (auto simp: distinct_map_filter)
      have e': "\<not> True \<or> e \<in> line ` set (bookmarks ?f')"
        unfolding bs' by simp
      have step: "removeLoop True ln e f u = removeLoop True (ln + 1) e ?f' True"
        using lt fnd nha by (subst removeLoop.simps) (simp add: Let_def)
      have rec: "removeLoop True (ln + 1) e ?f' True =
          (?f'\<lparr>bookmarks := filter (\<lambda>b. \<not> (ln + 1 \<le> line b \<and> line b < e)) (bookmarks ?f')\<rparr>,
            True \<or> (\<exists>b\<in>set (bookmarks ?f'). ln + 1 \<le> line b \<and> line b < e))"
        by (rule removeLoop_splicing [OF d' e'])
      have hd_eq: "filter (\<lambda>b. ln \<le> line b \<and> line b < e) ?bs \<noteq> []"
         "hd (filter (\<lambda>b. ln \<le> line b \<and> line b < e) ?bs) = ?b"
        using hd_inrange_sorted [OF "1.prems"(1) True lt] by simp_all
      have c: "spec_collapsed True ln e ?bs = [?b]"
        using hd_eq "1.prems"(2) by (simp add: spec_collapsed_def)
      have fa: "filter (\<lambda>b. \<not> (ln + 1 \<le> line b \<and> line b < e)) (filter (\<lambda>b. line b < ln) ?bs)
                  = filter (\<lambda>b. line b < ln) ?bs"
        by (simp, intro filter_cong) auto
      have fb: "filter (\<lambda>b. \<not> (ln + 1 \<le> line b \<and> line b < e)) (filter (\<lambda>b. ln < line b) ?bs)
                  = filter (\<lambda>b. e \<le> line b) ?bs"
        using lt by (simp, intro filter_cong) auto
      have fl: "filter (\<lambda>b. \<not> (ln + 1 \<le> line b \<and> line b < e)) (bookmarks ?f')
                 = filter (\<lambda>b. line b < ln) ?bs @ [?b\<lparr>line := e\<rparr>] @ filter (\<lambda>b. e \<le> line b) ?bs"
        unfolding bs' using fa fb by simp
      from True lt have ex: "\<exists>b\<in>set ?bs. ln \<le> line b \<and> line b < e" by auto
      show ?thesis
        unfolding step rec fl c using ex by (simp add: updateBookmarkLine_def)
    qed
  qed
qed

lemma removeLoop_sorted:
  assumes "sorted_wrt (<) (map line (bookmarks f))" "s \<le> e"
  shows "removeLoop keep s e f u =
     (f\<lparr>bookmarks := filter (\<lambda>b. line b < s) (bookmarks f)
                        @ map (\<lambda>b. b\<lparr>line := e\<rparr>) (spec_collapsed keep s e (bookmarks f))
                        @ filter (\<lambda>b. e \<le> line b) (bookmarks f)\<rparr>,
      u \<or> (\<exists>b\<in>set (bookmarks f). s \<le> line b \<and> line b < e))"
proof (cases "keep \<and> e \<notin> line ` set (bookmarks f)")
  case True
  then show ?thesis using removeLoop_collapse [OF assms(1) _ assms(2)] by simp
next
  case False
  then have c: "spec_collapsed keep s e (bookmarks f) = []" by (auto simp: spec_collapsed_def)
  have d: "distinct (map line (bookmarks f))"
    by (rule strict_sorted_distinct_lines) (rule assms(1))
  from False have k: "\<not> keep \<or> e \<in> line ` set (bookmarks f)" by blast
  show ?thesis
    unfolding removeLoop_splicing [OF d k] c sorted_split_filter [OF assms] by simp
qed

lemma shifts_above: "L < x \<Longrightarrow> shiftCondition L C x"
  by (auto simp: shiftCondition_def)

lemma shifts_below: "x < L \<Longrightarrow> \<not> shiftCondition L C x"
  by (auto simp: shiftCondition_def)

lemma shiftLoop_map:
  "shiftLoop L C d bs u =
     (map (\<lambda>b. if shiftCondition L C (line b) then b\<lparr>line := line b + d\<rparr> else b) bs,
      u \<or> (\<exists>b\<in>set bs. shiftCondition L C (line b)))"
  by (induction bs arbitrary: u) (auto simp: Let_def shiftCondition_def)

lemma shift_up_sorted:
  assumes "sorted_wrt (<) (map line bs)" "0 \<le> d"
  shows "sorted_wrt (<) (map line (fst (shiftLoop L C d bs u)))"
proof -
  have mono: "line (if shiftCondition L C (line x) then x\<lparr>line := line x + d\<rparr> else x)
                < line (if shiftCondition L C (line y) then y\<lparr>line := line y + d\<rparr> else y)"
    if "line x < line y" for x y :: Bookmark
    using that assms(2) by (auto simp: shiftCondition_def)
  from assms(1) have "sorted_wrt (\<lambda>x y. line x < line y) bs"
    by (simp add: sorted_wrt_map)
  then have "sorted_wrt (\<lambda>x y. line (if shiftCondition L C (line x) then x\<lparr>line := line x + d\<rparr> else x)
                < line (if shiftCondition L C (line y) then y\<lparr>line := line y + d\<rparr> else y)) bs"
    by (rule sorted_wrt_mono_rel [rotated]) (rule mono)
  then show ?thesis
    by (simp add: shiftLoop_map sorted_wrt_map)
qed

lemma deletion_pass:
  assumes "sorted_wrt (<) (map line (bookmarks f))" "s < e"
  shows "(case removeLoop keep s e f u of (f2, u2) \<Rightarrow>
            (case shiftLoop s C (- (e - s)) (bookmarks f2) u2 of (bs, u') \<Rightarrow> (f2\<lparr>bookmarks := bs\<rparr>, u')))
         = (f\<lparr>bookmarks := spec_afterDeletion keep s e (bookmarks f)\<rparr>,
            u \<or> (\<exists>b\<in>set (bookmarks f). s \<le> line b))"
proof -
  let ?bs = "bookmarks f"
  let ?g = "\<lambda>b. if shiftCondition s C (line b) then b\<lparr>line := line b + - (e - s)\<rparr> else b"
  have le: "s \<le> e" using assms(2) by simp
  have m1: "map ?g (filter (\<lambda>b. line b < s) ?bs) = filter (\<lambda>b. line b < s) ?bs"
    by (rule map_idI) (auto simp: shiftCondition_def)
  have m2: "map ?g (map (\<lambda>b. b\<lparr>line := e\<rparr>) (spec_collapsed keep s e ?bs))
              = map (\<lambda>b. b\<lparr>line := s\<rparr>) (spec_collapsed keep s e ?bs)"
    using assms(2) by (auto simp: shiftCondition_def)
  have m3: "map ?g (filter (\<lambda>b. e \<le> line b) ?bs)
              = map (\<lambda>b. b\<lparr>line := line b - (e - s)\<rparr>) (filter (\<lambda>b. e \<le> line b) ?bs)"
    using assms(2) by (auto simp: shiftCondition_def)
  have ex1: "(\<exists>b\<in>set (filter (\<lambda>b. line b < s) ?bs @ map (\<lambda>b. b\<lparr>line := e\<rparr>) (spec_collapsed keep s e ?bs)
                        @ filter (\<lambda>b. e \<le> line b) ?bs). shiftCondition s C (line b))
             = (spec_collapsed keep s e ?bs \<noteq> [] \<or> (\<exists>b\<in>set ?bs. e \<le> line b))"
  proof -
    have a: "\<not> (\<exists>b\<in>set (filter (\<lambda>b. line b < s) ?bs). shiftCondition s C (line b))"
      by (auto simp: shifts_below)
    have b: "(\<exists>b\<in>set (map (\<lambda>b. b\<lparr>line := e\<rparr>) (spec_collapsed keep s e ?bs)). shiftCondition s C (line b))
               = (spec_collapsed keep s e ?bs \<noteq> [])"
      using assms(2) by (cases "spec_collapsed keep s e ?bs") (auto simp: shifts_above)
    have c: "(\<exists>b\<in>set (filter (\<lambda>b. e \<le> line b) ?bs). shiftCondition s C (line b))
               = (\<exists>b\<in>set ?bs. e \<le> line b)"
      using assms(2) by (auto intro!: shifts_above)
    show ?thesis
      unfolding set_append bex_Un using a b c by blast
  qed
  have ex2: "spec_collapsed keep s e ?bs \<noteq> [] \<Longrightarrow> \<exists>b\<in>set ?bs. s \<le> line b \<and> line b < e"
    by (auto simp: spec_collapsed_def filter_empty_conv split: if_splits)
  have ex: "(u \<or> (\<exists>b\<in>set ?bs. s \<le> line b \<and> line b < e)
              \<or> spec_collapsed keep s e ?bs \<noteq> [] \<or> (\<exists>b\<in>set ?bs. e \<le> line b))
            = (u \<or> (\<exists>b\<in>set ?bs. s \<le> line b))"
    using ex2 assms(2) by (smt (verit, best))
  show ?thesis
    unfolding removeLoop_sorted [OF assms(1) le] shiftLoop_map
    using m1 m2 m3 ex1 ex
    by (simp add: spec_afterDeletion_def)
qed

lemma processChange_insertion:
  assumes "CHR 0x0A \<in> set (change_text c)" "\<not> start_line c < end_line c"
  shows "processChange keep doc c (f, u) =
     (f\<lparr>bookmarks :=
          map (\<lambda>b. if shiftCondition (start_line c) (adjustedEventChar doc (start_line c) (start_character c)) (line b)
                    then b\<lparr>line := line b + int (length (filter (\<lambda>ch. ch = CHR 0x0A) (change_text c)))\<rparr>
                    else b) (bookmarks f)\<rparr>,
      u \<or> (\<exists>b\<in>set (bookmarks f).
              shiftCondition (start_line c) (adjustedEventChar doc (start_line c) (start_character c)) (line b)))"
  using assms by (simp add: processChange_def Let_def shiftLoop_map)

lemma processChange_deletion:
  assumes "CHR 0x0A \<notin> set (change_text c)" "start_line c < end_line c"
    "sorted_wrt (<) (map line (bookmarks f))"
  shows "processChange keep doc c (f, u) =
     (f\<lparr>bookmarks := spec_afterDeletion keep (start_line c) (end_line c) (bookmarks f)\<rparr>,
      u \<or> (\<exists>b\<in>set (bookmarks f). start_line c \<le> line b))"
  using assms(1,2) deletion_pass [OF assms(3,2)]
  by (simp add: processChange_def Let_def)

lemma collapsed_cases:
  "spec_collapsed keep s e bs = [] \<or>
   (\<exists>b. spec_collapsed keep s e bs = [b] \<and> b \<in> set bs \<and> e \<notin> line ` set bs)"
  by (auto simp: spec_collapsed_def intro: hd_in_set dest!: hd_in_set)

lemma afterDeletion_sorted:
  assumes "sorted_wrt (<) (map line bs)" "s < e"
  shows "sorted_wrt (<) (map line (spec_afterDeletion keep s e bs))"
proof -
  from assms(1) have srt: "sorted_wrt (\<lambda>x y. line x < line y) bs"
    by (simp add: sorted_wrt_map)
  have a: "sorted_wrt (\<lambda>x y. line x < line y) (filter (\<lambda>b. line b < s) bs)"
    using srt by (rule sorted_wrt_filter)
  have "sorted_wrt (\<lambda>x y. line x < line y) (filter (\<lambda>b. e \<le> line b) bs)"
    using srt by (rule sorted_wrt_filter)
  then have c: "sorted_wrt (\<lambda>x y. line x < line y)
                  (map (\<lambda>b. b\<lparr>line := line b - (e - s)\<rparr>) (filter (\<lambda>b. e \<le> line b) bs))"
    by (simp add: sorted_wrt_map)
  from collapsed_cases [of keep s e bs]
  show ?thesis
  proof
    assume "spec_collapsed keep s e bs = []"
    then show ?thesis
      using a c assms(2) by (auto simp: spec_afterDeletion_def sorted_wrt_map sorted_wrt_append)
  next
    assume "\<exists>b. spec_collapsed keep s e bs = [b] \<and> b \<in> set bs \<and> e \<notin> line ` set bs"
    then obtain b where b: "spec_collapsed keep s e bs = [b]" "e \<notin> line ` set bs" by blast
    have "e < line x" if "x \<in> set bs" "e \<le> line x" for x
      using that b(2) by (cases "line x = e") auto
    then show ?thesis
      using a c assms(2) b(1)
      by (fastforce simp: spec_afterDeletion_def sorted_wrt_map sorted_wrt_append)
  qed
qed

lemma processChange_sorted:
  assumes "sorted_wrt (<) (map line (bookmarks (fst st)))"
  shows "sorted_wrt (<) (map line (bookmarks (fst (processChange keep doc c st))))"
proof -
  obtain f u where st: "st = (f, u)" by (cases st)
  let ?isAdd = "CHR 0x0A \<in> set (change_text c)"
  let ?isDel = "start_line c < end_line c"
  let ?k = "int (length (filter (\<lambda>ch. ch = CHR 0x0A) (change_text c)))"
  let ?C = "adjustedEventChar doc (start_line c) (start_character c)"
  let ?f1 = "if ?isAdd then f\<lparr>bookmarks := fst (shiftLoop (start_line c) ?C ?k (bookmarks f) u)\<rparr> else f"
  let ?u1 = "if ?isAdd then snd (shiftLoop (start_line c) ?C ?k (bookmarks f) u) else u"
  have f_sorted: "sorted_wrt (<) (map line (bookmarks f))"
    using assms by (simp add: st)
  have s1: "sorted_wrt (<) (map line (bookmarks ?f1))"
    using f_sorted shift_up_sorted [OF f_sorted, of ?k "start_line c" ?C u] by simp
  show ?thesis
  proof (cases ?isDel)
    case False
    then show ?thesis
      using s1 f_sorted
      by (auto simp add: processChange_def Let_def st split_beta split: if_splits)
  next
    case True
    have "processChange keep doc c st =
            (case removeLoop keep (start_line c) (end_line c) ?f1 ?u1 of (f2, u2) \<Rightarrow>
              (case shiftLoop (start_line c) ?C (- (end_line c - start_line c)) (bookmarks f2) u2 of
                 (bs, u') \<Rightarrow> (f2\<lparr>bookmarks := bs\<rparr>, u')))"
      using True by (simp add: processChange_def Let_def st split_beta)
    also have "\<dots> = (?f1\<lparr>bookmarks := spec_afterDeletion keep (start_line c) (end_line c) (bookmarks ?f1)\<rparr>,
                       ?u1 \<or> (\<exists>b\<in>set (bookmarks ?f1). start_line c \<le> line b))"
      by (rule deletion_pass [OF s1 True])
    finally show ?thesis
      using afterDeletion_sorted [OF s1 True] by simp
  qed
qed

lemma sticky_fold_sorted:
  "sorted_wrt (<) (map line (bookmarks (fst st))) \<Longrightarrow>
   sorted_wrt (<) (map line (bookmarks (fst (fold (processChange keep doc) cs st))))"
proof (induction cs arbitrary: st)
  case Nil
  then show ?case by simp
next
  case (Cons c cs)
  from Cons.prems have "sorted_wrt (<) (map line (bookmarks (fst (processChange keep doc c st))))"
    by (rule processChange_sorted)
  from Cons.IH [OF this] show ?case by simp
qed

lemma updateStickyGlobalBookmarks_sorted:
  "sorted_wrt (<) (map line (bookmarks f)) \<Longrightarrow>
   sorted_wrt (<) (map line (bookmarks (snd (updateStickyGlobalBookmarks keep cs f doc))))"
  using sticky_fold_sorted [of "(f, False)" keep doc cs]
  by (simp add: updateStickyGlobalBookmarks_def split_beta)

section \<open>Properties of the global bookmarks manager\<close>

lemma sorted_lines_iff: "sorted_lines bs = sorted_wrt (<) (map line bs)"
  by (auto simp: sorted_lines_def strict_sorted_distinct_lines)

lemma findByPath_Some:
  "findByPath fs p = Some i \<Longrightarrow> i < length fs \<and> path (fs ! i) = p"
  by (induction fs arbitrary: i) (auto split: if_splits)

lemma findByPath_None:
  "findByPath fs p = None \<Longrightarrow> p \<notin> path ` set fs"
  by (induction fs) (auto split: if_splits)

lemma findByPath_append_new:
  "findByPath fs p = None \<Longrightarrow> findByPath (fs @ [\<lparr>path = p, bookmarks = bs\<rparr>]) p = Some (length fs)"
  by (induction fs) (auto split: if_splits)

lemma findByPath_update_bookmarks:
  "findByPath (fs[i := (fs ! i)\<lparr>bookmarks := bs\<rparr>]) p = findByPath fs p"
proof (induction fs arbitrary: i)
  case Nil
  then show ?case by simp
next
  case (Cons f fs)
  then show ?case by (cases i) auto
qed

lemma files_fire [simp]: "files (fire e m) = files m"
  by (simp add: fire_def)

lemma files_save [simp]: "files (save env m) = files m"
  by (simp add: save_def Let_def)

lemma files_notifyAndSave [simp]: "files (notifyAndSave env m) = files m"
  by (simp add: notifyAndSave_def)

lemma store_inv_fire [simp]: "store_inv (fire e m) = store_inv m"
  by (simp add: store_inv_def)

lemma store_inv_save [simp]: "store_inv (save env m) = store_inv m"
  by (simp add: store_inv_def)

lemma store_inv_notifyAndSave [simp]: "store_inv (notifyAndSave env m) = store_inv m"
  by (simp add: store_inv_def)

lemma files_setBookmarks:
  "files (setBookmarks fi bs m) = (files m)[fi := (files m ! fi)\<lparr>bookmarks := bs\<rparr>]"
  by (simp add: setBookmarks_def)

lemma store_inv_setBookmarks:
  "store_inv m \<Longrightarrow> sorted_lines bs \<Longrightarrow> store_inv (setBookmarks fi bs m)"
  unfolding store_inv_def files_setBookmarks
  by (auto dest!: set_update_subset_insert [THEN subsetD])

lemma store_inv_nth:
  "store_inv m \<Longrightarrow> i < length (files m) \<Longrightarrow> sorted_lines (bookmarks (files m ! i))"
  by (simp add: store_inv_def)

lemma getOrCreateFile_found:
  "findByPath (files m) (normalizePath env (fsPath env u)) = Some i \<Longrightarrow>
     getOrCreateFile env u m = (i, m)"
  by (simp add: getOrCreateFile_def)

lemma getOrCreateFile_new:
  "findByPath (files m) (normalizePath env (fsPath env u)) = None \<Longrightarrow>
     getOrCreateFile env u m =
       (length (files m),
        m\<lparr>files := files m @ [\<lparr>path = normalizePath env (fsPath env u), bookmarks = []\<rparr>]\<rparr>)"
  by (simp add: getOrCreateFile_def)

lemma getOrCreateFile_props:
  assumes "getOrCreateFile env u m = (fi, m1)"
  shows "fi < length (files m1)"
    and "findByPath (files m1) (normalizePath env (fsPath env u)) = Some fi"
    and "store_inv m \<Longrightarrow> store_inv m1"
    and "bookmarks (files m1 ! fi) = getBookmarksForFile env u m"
    and "getOrCreateFile env u m1 = (fi, m1)"
proof -
  let ?p = "normalizePath env (fsPath env u)"
  show "fi < length (files m1)"
    using assms
    by (cases "findByPath (files m) ?p")
       (auto simp: getOrCreateFile_def dest: findByPath_Some)
  show f: "findByPath (files m1) ?p = Some fi"
    using assms
    by (cases "findByPath (files m) ?p")
       (auto simp: getOrCreateFile_def findByPath_append_new)
  show "store_inv m \<Longrightarrow> store_inv m1"
    using assms
    by (cases "findByPath (files m) ?p")
       (auto simp: getOrCreateFile_def store_inv_def sorted_lines_def)
  show "bookmarks (files m1 ! fi) = getBookmarksForFile env u m"
    using assms
    by (cases "findByPath (files m) ?p")
       (auto simp: getOrCreateFile_def getBookmarksForFile_def fromUri_def)
  show "getOrCreateFile env u m1 = (fi, m1)"
    using f by (simp add: getOrCreateFile_def)
qed

lemma sorted_lines_insert:
  assumes "sorted_lines bs" "ln \<notin> line ` set bs"
  shows "sorted_lines (sort_key line (bs @ [\<lparr>line = ln, column = col, label = l\<rparr>]))"
proof -
  have "distinct (map line (bs @ [\<lparr>line = ln, column = col, label = l\<rparr>]))"
    using assms by (auto simp: sorted_lines_def)
  then have "distinct (map line (sort_key line (bs @ [\<lparr>line = ln, column = col, label = l\<rparr>])))"
    by (simp only: distinct_map set_sort distinct_sort) 
  moreover have "sorted (map line (sort_key line (bs @ [\<lparr>line = ln, column = col, label = l\<rparr>])))"
    by (rule sorted_sort_key)
  ultimately show ?thesis
    by (simp add: sorted_lines_def strict_sorted_iff)
qed

lemma sorted_lines_filter: "sorted_lines bs \<Longrightarrow> sorted_lines (filter P bs)"
  by (simp add: sorted_lines_def sorted_wrt_map sorted_wrt_filter distinct_map_filter)

lemma sorted_lines_splice:
  assumes "sorted_lines (bookmarks f)" "indexOfBookmark f ln \<ge> 0"
  shows "sorted_lines (splice1 (indexOfBookmark f ln) (bookmarks f))"
proof -
  from assms(2) have "indexOfBookmark f ln > -1" by simp
  then have mem: "ln \<in> line ` set (bookmarks f)" by (simp add: indexOfBookmark_found_iff)
  from assms(1) have "distinct (map line (bookmarks f))" by (simp add: sorted_lines_def)
  from splice1_indexOfBookmark [OF this mem] assms(1) show ?thesis
    by (simp add: sorted_lines_filter)
qed

lemma map_line_label_update:
  "map line (bs[i := (bs ! i)\<lparr>label := l\<rparr>]) = map line bs"
  by (induction bs arbitrary: i) (auto split: nat.splits)

lemma getBookmarksForFile_setBookmarks:
  assumes "findByPath (files m) (normalizePath env (fsPath env u)) = Some fi"
  shows "getBookmarksForFile env u (setBookmarks fi bs m) = bs"
  using assms findByPath_Some [OF assms]
  by (simp add: getBookmarksForFile_def fromUri_def files_setBookmarks findByPath_update_bookmarks)

lemma getBookmarksForFile_cong:
  "files m' = files m \<Longrightarrow> getBookmarksForFile env u m' = getBookmarksForFile env u m"
  by (simp add: getBookmarksForFile_def fromUri_def cong: option.case_cong)

lemma getBookmarksForFile_fire [simp]:
  "getBookmarksForFile env u (fire e m) = getBookmarksForFile env u m"
  by (rule getBookmarksForFile_cong) simp

lemma getBookmarksForFile_save [simp]:
  "getBookmarksForFile env u (save env' m) = getBookmarksForFile env u m"
  by (rule getBookmarksForFile_cong) simp

lemma addBookmark_files:
  assumes "getOrCreateFile env u m = (fi, m1)"
  shows "files (addBookmark env u ln col lbl m) =
           files (setBookmarks fi
             (sort_key line (bookmarks (files m1 ! fi)
                @ [\<lparr>line = ln, column = col, label = (case lbl of None \<Rightarrow> '''' | Some l \<Rightarrow> l)\<rparr>])) m1)"
  using assms by (simp add: addBookmark_def Let_def)

lemma addBookmark_bookmarks:
  "getBookmarksForFile env u (addBookmark env u ln col lbl m) =
     sort_key line (getBookmarksForFile env u m
        @ [\<lparr>line = ln, column = col, label = (case lbl of None \<Rightarrow> '''' | Some l \<Rightarrow> l)\<rparr>])"
proof -
  obtain fi m1 where g: "getOrCreateFile env u m = (fi, m1)" by (cases "getOrCreateFile env u m")
  note p = getOrCreateFile_props [OF g]
  have "getBookmarksForFile env u (addBookmark env u ln col lbl m)
          = getBookmarksForFile env u (setBookmarks fi
             (sort_key line (bookmarks (files m1 ! fi)
                @ [\<lparr>line = ln, column = col, label = (case lbl of None \<Rightarrow> '''' | Some l \<Rightarrow> l)\<rparr>])) m1)"
    by (rule getBookmarksForFile_cong) (rule addBookmark_files [OF g])
  then show ?thesis
    using getBookmarksForFile_setBookmarks [OF p(2)] p(4) by simp
qed

lemma addBookmark_inv:
  assumes "store_inv m" "ln \<notin> line ` set (getBookmarksForFile env u m)"
  shows "store_inv (addBookmark env u ln col lbl m)"
proof -
  obtain fi m1 where g: "getOrCreateFile env u m = (fi, m1)" by (cases "getOrCreateFile env u m")
  note p = getOrCreateFile_props [OF g]
  have s: "sorted_lines (bookmarks (files m1 ! fi))"
    using store_inv_nth [OF p(3) p(1)] assms(1) by simp
  have "store_inv (setBookmarks fi
             (sort_key line (bookmarks (files m1 ! fi)
                @ [\<lparr>line = ln, column = col, label = (case lbl of None \<Rightarrow> '''' | Some l \<Rightarrow> l)\<rparr>])) m1)"
    using p(3) [OF assms(1)] s assms(2) p(4)
    by (intro store_inv_setBookmarks sorted_lines_insert) simp_all
  then show ?thesis
    unfolding store_inv_def addBookmark_files [OF g] .
qed

lemma removeBookmark_inv:
  assumes "store_inv m" "fi < length (files m)" "indexOfBookmark (files m ! fi) ln \<ge> 0"
  shows "store_inv (removeBookmark fi (indexOfBookmark (files m ! fi) ln) ln m)"
  using assms
  by (simp add: removeBookmark_def store_inv_setBookmarks sorted_lines_splice store_inv_nth)

lemma index_nonneg_iff:
  "(indexOfBookmark f ln \<ge> 0) = (ln \<in> line ` set (bookmarks f))"
  using indexOfBookmark_found_iff [of f ln] by auto

lemma toggle_inv:
  assumes "store_inv m"
  shows "store_inv (snd (toggle env u ln col lbl m))"
proof -
  obtain fi m1 where g: "getOrCreateFile env u m = (fi, m1)" by (cases "getOrCreateFile env u m")
  note p = getOrCreateFile_props [OF g]
  have inv1: "store_inv m1" by (rule p(3)) (rule assms)
  let ?file = "files m1 ! fi"
  have s: "sorted_lines (bookmarks ?file)" by (rule store_inv_nth [OF inv1 p(1)])
  show ?thesis
  proof (cases "indexOfBookmark ?file ln \<ge> 0")
    case True
    have rel: "store_inv (setBookmarks fi
                 ((bookmarks ?file)[nat (indexOfBookmark ?file ln)
                     := (bookmarks ?file ! nat (indexOfBookmark ?file ln))\<lparr>label := l\<rparr>]) m1)" for l
      using inv1 s by (intro store_inv_setBookmarks) (simp_all add: sorted_lines_def map_line_label_update)
    have rem: "store_inv (removeBookmark fi (indexOfBookmark ?file ln) ln m1)"
      by (rule removeBookmark_inv [OF inv1 p(1) True])
    show ?thesis
      using True rel rem
      by (simp add: toggle_def g Let_def split: option.splits)
  next
    case False
    then have "ln \<notin> line ` set (getBookmarksForFile env u m1)"
      using p(4) getOrCreateFile_props(4) [OF p(5)] by (simp add: index_nonneg_iff)
    from addBookmark_inv [OF inv1 this] False show ?thesis
      by (simp add: toggle_def g Let_def)
  qed
qed

lemma toggle_adds:
  assumes "ln \<notin> line ` set (getBookmarksForFile env u m)"
  shows "toggle env u ln col lbl m =
           (True, fire DidChange (save env (addBookmark env u ln col lbl (snd (getOrCreateFile env u m)))))"
    and "getBookmarksForFile env u (snd (toggle env u ln col lbl m)) =
          sort_key line (getBookmarksForFile env u m
            @ [\<lparr>line = ln, column = col, label = (case lbl of None \<Rightarrow> '''' | Some l \<Rightarrow> l)\<rparr>])"
proof -
  obtain fi m1 where g: "getOrCreateFile env u m = (fi, m1)" by (cases "getOrCreateFile env u m")
  note p = getOrCreateFile_props [OF g]
  have nf: "\<not> indexOfBookmark (files m1 ! fi) ln \<ge> 0"
    using assms p(4) by (simp add: index_nonneg_iff)
  then show t: "toggle env u ln col lbl m =
           (True, fire DidChange (save env (addBookmark env u ln col lbl (snd (getOrCreateFile env u m)))))"
    by (simp add: toggle_def g Let_def)
  have "getBookmarksForFile env u m1 = getBookmarksForFile env u m"
    using getOrCreateFile_props(4) [OF p(5)] p(4) by simp
  then show "getBookmarksForFile env u (snd (toggle env u ln col lbl m)) =
          sort_key line (getBookmarksForFile env u m
            @ [\<lparr>line = ln, column = col, label = (case lbl of None \<Rightarrow> '''' | Some l \<Rightarrow> l)\<rparr>])"
    unfolding t by (simp add: g addBookmark_bookmarks)
qed

lemma toggle_removes:
  assumes "ln \<in> line ` set (getBookmarksForFile env u m)" "lbl = None \<or> lbl = Some ''''"
    "distinct (map line (getBookmarksForFile env u m))"
  shows "fst (toggle env u ln col lbl m) = False"
    and "getBookmarksForFile env u (snd (toggle env u ln col lbl m)) =
          filter (\<lambda>b. line b \<noteq> ln) (getBookmarksForFile env u m)"
proof -
  obtain fi m1 where g: "getOrCreateFile env u m = (fi, m1)" by (cases "getOrCreateFile env u m")
  note p = getOrCreateFile_props [OF g]
  let ?file = "files m1 ! fi"
  have fnd: "indexOfBookmark ?file ln \<ge> 0"
    using assms(1) p(4) by (simp add: index_nonneg_iff)
  have t: "toggle env u ln col lbl m =
            (False, fire DidChange (save env (removeBookmark fi (indexOfBookmark ?file ln) ln m1)))"
    using fnd assms(2) by (auto simp: toggle_def g Let_def)
  show "fst (toggle env u ln col lbl m) = False" by (simp add: t)
  have "splice1 (indexOfBookmark ?file ln) (bookmarks ?file) = filter (\<lambda>b. line b \<noteq> ln) (bookmarks ?file)"
    using assms(1,3) p(4) by (intro splice1_indexOfBookmark) simp_all
  then show "getBookmarksForFile env u (snd (toggle env u ln col lbl m)) =
          filter (\<lambda>b. line b \<noteq> ln) (getBookmarksForFile env u m)"
    unfolding t using p(4)
    by (simp add: removeBookmark_def getBookmarksForFile_setBookmarks [OF p(2)])
qed

lemma toggle_relabels:
  assumes "ln \<in> line ` set (getBookmarksForFile env u m)" "l \<noteq> ''''"
  shows "fst (toggle env u ln col (Some l) m) = False"
    and "getBookmarksForFile env u (snd (toggle env u ln col (Some l) m)) =
          (getBookmarksForFile env u m)
            [length (takeWhile (\<lambda>b. line b \<noteq> ln) (getBookmarksForFile env u m))
               := ((getBookmarksForFile env u m)
                     ! length (takeWhile (\<lambda>b. line b \<noteq> ln) (getBookmarksForFile env u m)))\<lparr>label := l\<rparr>]"
    and "effects (snd (toggle env u ln col (Some l) m)) =
          effects m @ [DidUpdateBookmark (normalizePath env (fsPath env u))
                         (int (length (takeWhile (\<lambda>b. line b \<noteq> ln) (getBookmarksForFile env u m))))
                         (ln + 1) (Some (col + 1)) None (Some l), DidChange]"
proof -
  obtain fi m1 where g: "getOrCreateFile env u m = (fi, m1)" by (cases "getOrCreateFile env u m")
  note p = getOrCreateFile_props [OF g]
  let ?file = "files m1 ! fi"
  let ?bs = "getBookmarksForFile env u m"
  let ?n = "length (takeWhile (\<lambda>b. line b \<noteq> ln) ?bs)"
  have idx: "indexOfBookmark ?file ln = int ?n"
    using assms(1) p(4) by (simp add: indexOfBookmark_def indexOfFrom_in)
  have t: "toggle env u ln col (Some l) m =
            (False, fire DidChange (save env
               (fire (DidUpdateBookmark (path ?file) (int ?n) (ln + 1) (Some (col + 1)) None (Some l))
                  (setBookmarks fi (?bs[?n := (?bs ! ?n)\<lparr>label := l\<rparr>]) m1))))"
    using assms(2) p(4) by (simp add: toggle_def g Let_def idx)
  show "fst (toggle env u ln col (Some l) m) = False" by (simp add: t)
  show "getBookmarksForFile env u (snd (toggle env u ln col (Some l) m)) = ?bs[?n := (?bs ! ?n)\<lparr>label := l\<rparr>]"
    unfolding t by (simp add: getBookmarksForFile_setBookmarks [OF p(2)])
  have e1: "effects m1 = effects m"
    using g by (auto simp: getOrCreateFile_def Let_def split: option.splits)
  have pth: "path ?file = normalizePath env (fsPath env u)"
    using findByPath_Some [OF p(2)] by simp
  show "effects (snd (toggle env u ln col (Some l) m)) =
          effects m @ [DidUpdateBookmark (normalizePath env (fsPath env u)) (int ?n) (ln + 1)
                         (Some (col + 1)) None (Some l), DidChange]"
    unfolding t by (simp add: fire_def save_def setBookmarks_def e1 pth)
qed

section \<open>Claims about the sticky adjustment\<close>

text \<open>
  Claim C2, as amended.  For a pure insertion (the replacement text contains a line feed and
  no line is deleted) every bookmark on a line after the start line moves down by the
  number of inserted line feeds, a bookmark before the start line stays, and a bookmark
  on the start line moves exactly when the insertion is at column 0 or the text of the
  start line, read from the document after the edit, is nothing but whitespace.  The
  returned flag says whether a bookmark moved.
\<close>

theorem sticky_insertion_shift:
  assumes "CHR 0x0A \<in> set (change_text c)" and "start_line c = end_line c"
  shows "updateStickyGlobalBookmarks keep [c] f doc =
    ((\<exists>b\<in>set (bookmarks f).
        line b > start_line c \<or>
        (line b = start_line c \<and>
           (start_character c = 0 \<or> strippedIsEmpty (lineAt_text doc (start_line c))))),
     f\<lparr>bookmarks :=
         map (\<lambda>b. if line b > start_line c \<or>
                      (line b = start_line c \<and>
                         (start_character c = 0 \<or> strippedIsEmpty (lineAt_text doc (start_line c))))
                   then b\<lparr>line := line b + int (length (filter (\<lambda>ch. ch = CHR 0x0A) (change_text c)))\<rparr>
                   else b)
           (bookmarks f)\<rparr>)"
proof -
  have sh: "shiftCondition (start_line c) (adjustedEventChar doc (start_line c) (start_character c)) x
             = (x > start_line c \<or>
                 (x = start_line c \<and>
                   (start_character c = 0 \<or> strippedIsEmpty (lineAt_text doc (start_line c)))))" for x
    by (auto simp: shiftCondition_def adjustedEventChar_def)
  have nd: "\<not> start_line c < end_line c" using assms(2) by simp
  show ?thesis
    unfolding updateStickyGlobalBookmarks_def
    by (simp add: processChange_insertion [OF assms(1) nd] sh)
qed

text \<open>
  Markers at 2, 5 and 9 and three line feeds inserted on line 5: at column 0 the result is
  2, 8, 12; at column 1 of a line that holds text it is 2, 5, 12.
\<close>

theorem sticky_insertion_shift_witness:
  "map line (bookmarks (snd (updateStickyGlobalBookmarks False
      [\<lparr>start_line = 5, start_character = 0, end_line = 5, end_character = 0,
        change_text = [CHR 0x0A, CHR 0x0A, CHR 0x0A]\<rparr>]
      \<lparr>path = ''/a'', bookmarks = [\<lparr>line = 2, column = 0, label = ''''\<rparr>,
         \<lparr>line = 5, column = 0, label = ''''\<rparr>, \<lparr>line = 9, column = 0, label = ''''\<rparr>]\<rparr>
      (document_of_lines [''l0'', ''l1'', ''l2'', ''l3'', ''l4'', '''', '''', '''', ''l5'', ''l6'',
         ''l7'', ''l8'', ''l9''])))) = [2, 8, 12]
   \<and>
   map line (bookmarks (snd (updateStickyGlobalBookmarks False
      [\<lparr>start_line = 5, start_character = 1, end_line = 5, end_character = 1,
        change_text = [CHR 0x0A, CHR 0x0A, CHR 0x0A]\<rparr>]
      \<lparr>path = ''/a'', bookmarks = [\<lparr>line = 2, column = 0, label = ''''\<rparr>,
         \<lparr>line = 5, column = 0, label = ''''\<rparr>, \<lparr>line = 9, column = 0, label = ''''\<rparr>]\<rparr>
      (document_of_lines [''l0'', ''l1'', ''l2'', ''l3'', ''l4'', ''l'', '''', '''', ''5'', ''l6'',
         ''l7'', ''l8'', ''l9''])))) = [2, 5, 12]"
  using
    sticky_insertion_shift [of "\<lparr>start_line = 5, start_character = 0, end_line = 5, end_character = 0,
        change_text = [CHR 0x0A, CHR 0x0A, CHR 0x0A]\<rparr>" False
      "\<lparr>path = ''/a'', bookmarks = [\<lparr>line = 2, column = 0, label = ''''\<rparr>,
         \<lparr>line = 5, column = 0, label = ''''\<rparr>, \<lparr>line = 9, column = 0, label = ''''\<rparr>]\<rparr>"
      "document_of_lines [''l0'', ''l1'', ''l2'', ''l3'', ''l4'', '''', '''', '''', ''l5'', ''l6'',
         ''l7'', ''l8'', ''l9'']"]
    sticky_insertion_shift [of "\<lparr>start_line = 5, start_character = 1, end_line = 5, end_character = 1,
        change_text = [CHR 0x0A, CHR 0x0A, CHR 0x0A]\<rparr>" False
      "\<lparr>path = ''/a'', bookmarks = [\<lparr>line = 2, column = 0, label = ''''\<rparr>,
         \<lparr>line = 5, column = 0, label = ''''\<rparr>, \<lparr>line = 9, column = 0, label = ''''\<rparr>]\<rparr>"
      "document_of_lines [''l0'', ''l1'', ''l2'', ''l3'', ''l4'', ''l'', '''', '''', ''5'', ''l6'',
         ''l7'', ''l8'', ''l9'']"]
  by (simp add: document_of_lines_def strippedIsEmpty_def js_whitespace_def)

text \<open>
  Claim C2 as it was stated fails: the same insertion at column 4 of a line that holds four
  spaces moves the bookmark of line 5 as well, and the result is 2, 8, 12, not 2, 5, 12.
\<close>

theorem sticky_insertion_blank_line_counterexample:
  "map line (bookmarks (snd (updateStickyGlobalBookmarks False
      [\<lparr>start_line = 5, start_character = 4, end_line = 5, end_character = 4,
        change_text = [CHR 0x0A, CHR 0x0A, CHR 0x0A]\<rparr>]
      \<lparr>path = ''/a'', bookmarks = [\<lparr>line = 2, column = 0, label = ''''\<rparr>,
         \<lparr>line = 5, column = 0, label = ''''\<rparr>, \<lparr>line = 9, column = 0, label = ''''\<rparr>]\<rparr>
      (document_of_lines [''l0'', ''l1'', ''l2'', ''l3'', ''l4'', ''    '', '''', '''', '''', ''l6'',
         ''l7'', ''l8'', ''l9''])))) = [2, 8, 12]
   \<and>
   map line (bookmarks (snd (updateStickyGlobalBookmarks False
      [\<lparr>start_line = 5, start_character = 4, end_line = 5, end_character = 4,
        change_text = [CHR 0x0A, CHR 0x0A, CHR 0x0A]\<rparr>]
      \<lparr>path = ''/a'', bookmarks = [\<lparr>line = 2, column = 0, label = ''''\<rparr>,
         \<lparr>line = 5, column = 0, label = ''''\<rparr>, \<lparr>line = 9, column = 0, label = ''''\<rparr>]\<rparr>
      (document_of_lines [''l0'', ''l1'', ''l2'', ''l3'', ''l4'', ''    '', '''', '''', '''', ''l6'',
         ''l7'', ''l8'', ''l9''])))) \<noteq> [2, 5, 12]"
  by (simp add: updateStickyGlobalBookmarks_def processChange_def adjustedEventChar_def
      document_of_lines_def strippedIsEmpty_def js_whitespace_def)

lemma processChange_replace:
  assumes "CHR 0x0A \<in> set (change_text c)" "start_line c < end_line c"
    "sorted_wrt (<) (map line (bookmarks f))"
  shows "processChange keep doc c (f, u) =
     (f\<lparr>bookmarks := spec_afterDeletion keep (start_line c) (end_line c)
          (map (\<lambda>b. if shiftCondition (start_line c)
                          (adjustedEventChar doc (start_line c) (start_character c)) (line b)
                    then b\<lparr>line := line b + int (length (filter (\<lambda>ch. ch = CHR 0x0A) (change_text c)))\<rparr>
                    else b) (bookmarks f))\<rparr>,
      u \<or> (\<exists>b\<in>set (bookmarks f). start_line c \<le> line b))"
proof -
  let ?s = "start_line c" and ?e = "end_line c"
  let ?k = "int (length (filter (\<lambda>ch. ch = CHR 0x0A) (change_text c)))"
  let ?C = "adjustedEventChar doc ?s (start_character c)"
  let ?g = "\<lambda>b. if shiftCondition ?s ?C (line b) then b\<lparr>line := line b + ?k\<rparr> else b"
  let ?f1 = "f\<lparr>bookmarks := map ?g (bookmarks f)\<rparr>"
  let ?u1 = "u \<or> (\<exists>b\<in>set (bookmarks f). shiftCondition ?s ?C (line b))"
  have s1: "sorted_wrt (<) (map line (bookmarks ?f1))"
    using shift_up_sorted [OF assms(3), of ?k ?s ?C u] by (simp add: shiftLoop_map)
  have "processChange keep doc c (f, u) =
          (case removeLoop keep ?s ?e ?f1 ?u1 of (f2, u2) \<Rightarrow>
            (case shiftLoop ?s ?C (- (?e - ?s)) (bookmarks f2) u2 of
               (bs, u') \<Rightarrow> (f2\<lparr>bookmarks := bs\<rparr>, u')))"
    using assms(1,2) by (simp add: processChange_def Let_def split_beta shiftLoop_map)
  also have "\<dots> = (?f1\<lparr>bookmarks := spec_afterDeletion keep ?s ?e (bookmarks ?f1)\<rparr>,
                     ?u1 \<or> (\<exists>b\<in>set (bookmarks ?f1). ?s \<le> line b))"
    by (rule deletion_pass [OF s1 assms(2)])
  finally have p: "processChange keep doc c (f, u) =
      (?f1\<lparr>bookmarks := spec_afterDeletion keep ?s ?e (bookmarks ?f1)\<rparr>,
       ?u1 \<or> (\<exists>b\<in>set (bookmarks ?f1). ?s \<le> line b))" .
  have ge: "?s \<le> x" if "shiftCondition ?s ?C x" for x
    using that by (auto simp: shiftCondition_def)
  have e1: "bookmarks ?f1 = map ?g (bookmarks f)" by simp
  have e2: "(\<exists>b\<in>set (map ?g (bookmarks f)). ?s \<le> line b)
              = (\<exists>b\<in>set (bookmarks f). ?s \<le> line (?g b))"
    by (simp only: set_map) blast
  have e3: "(?s \<le> line (?g b)) = (?s \<le> line b)" for b
    using ge [of "line b"] by (cases "shiftCondition ?s ?C (line b)") simp_all
  have "(\<exists>b\<in>set (bookmarks ?f1). ?s \<le> line b) = (\<exists>b\<in>set (bookmarks f). ?s \<le> line b)"
    unfolding e1 e2 by (simp only: e3)
  moreover have "?u1 \<or> (\<exists>b\<in>set (bookmarks f). ?s \<le> line b)
                  \<longleftrightarrow> u \<or> (\<exists>b\<in>set (bookmarks f). ?s \<le> line b)"
    using ge by blast
  ultimately show ?thesis
    unfolding p by simp
qed

text \<open>
  Claim C3, what the code does.  For a change that deletes the lines \<open>[startLine, endLine)\<close>,
  applied to a store that is strictly sorted by line, the deletion pass runs on the
  bookmarks as the insertion pass leaves them.  When the replacement text holds no line
  feed these are the bookmarks before the change: with the keep policy off every bookmark
  of the deleted range is destroyed; with the policy on the first of them is collapsed onto
  \<open>endLine\<close> unless a bookmark already sits there, and every other bookmark of the range is
  destroyed; then every surviving bookmark past \<open>startLine\<close> moves up by
  \<open>endLine - startLine\<close>.  When the replacement text holds line feeds, the insertion pass
  has already moved the bookmarks from \<open>startLine\<close> on down by the number of line feeds, and
  it is on these moved lines that the range \<open>[startLine, endLine)\<close> is scanned: a bookmark
  of a deleted line that was moved out of the range is neither destroyed nor collapsed.
\<close>

theorem sticky_deletion:
  assumes "sorted_wrt (<) (map line (bookmarks f))"
    and "start_line c < end_line c"
  shows "updateStickyGlobalBookmarks keep [c] f doc =
    ((\<exists>b\<in>set (bookmarks f). start_line c \<le> line b),
     f\<lparr>bookmarks := spec_afterDeletion keep (start_line c) (end_line c)
          (if CHR 0x0A \<in> set (change_text c)
           then map (\<lambda>b. if shiftCondition (start_line c)
                               (adjustedEventChar doc (start_line c) (start_character c)) (line b)
                         then b\<lparr>line := line b
                                  + int (length (filter (\<lambda>ch. ch = CHR 0x0A) (change_text c)))\<rparr>
                         else b) (bookmarks f)
           else bookmarks f)\<rparr>)"
proof (cases "CHR 0x0A \<in> set (change_text c)")
  case True
  show ?thesis
    unfolding updateStickyGlobalBookmarks_def
    using True by (simp add: processChange_replace [OF True assms(2,1)])
next
  case False
  show ?thesis
    unfolding updateStickyGlobalBookmarks_def
    using False by (simp add: processChange_deletion [OF False assms(2,1)])
qed

text \<open>
  Markers at 2, 5 and 9 and the deletion of lines \<open>[4, 7)\<close>: 2, 6 with the keep policy
  off, and 2, 4, 6 with it on.  The failing input of claim C3: the same markers, the keep
  policy off, and the lines \<open>[4, 7)\<close> replaced by a text of two lines, each ended by a line
  feed.  The bookmark of the deleted line 5 is not destroyed: it ends on line 4.
\<close>

theorem sticky_deletion_witness:
  "map line (bookmarks (snd (updateStickyGlobalBookmarks False
      [\<lparr>start_line = 4, start_character = 0, end_line = 7, end_character = 0, change_text = ''''\<rparr>]
      \<lparr>path = ''/a'', bookmarks = [\<lparr>line = 2, column = 0, label = ''''\<rparr>,
         \<lparr>line = 5, column = 0, label = ''''\<rparr>, \<lparr>line = 9, column = 0, label = ''''\<rparr>]\<rparr>
      (document_of_lines [''l0'', ''l1'', ''l2'', ''l3'', ''l7'', ''l8'', ''l9''])))) = [2, 6]
   \<and>
   map line (bookmarks (snd (updateStickyGlobalBookmarks True
      [\<lparr>start_line = 4, start_character = 0, end_line = 7, end_character = 0, change_text = ''''\<rparr>]
      \<lparr>path = ''/a'', bookmarks = [\<lparr>line = 2, column = 0, label = ''''\<rparr>,
         \<lparr>line = 5, column = 0, label = ''''\<rparr>, \<lparr>line = 9, column = 0, label = ''''\<rparr>]\<rparr>
      (document_of_lines [''l0'', ''l1'', ''l2'', ''l3'', ''l7'', ''l8'', ''l9''])))) = [2, 4, 6]
   \<and>
   map line (bookmarks (snd (updateStickyGlobalBookmarks False
      [\<lparr>start_line = 4, start_character = 0, end_line = 7, end_character = 0,
        change_text = [CHR ''a'', CHR 0x0A, CHR ''b'', CHR 0x0A]\<rparr>]
      \<lparr>path = ''/a'', bookmarks = [\<lparr>line = 2, column = 0, label = ''''\<rparr>,
         \<lparr>line = 5, column = 0, label = ''''\<rparr>, \<lparr>line = 9, column = 0, label = ''''\<rparr>]\<rparr>
      (document_of_lines [''l0'', ''l1'', ''l2'', ''l3'', ''a'', ''b'', ''l7'', ''l8'', ''l9''])))) = [2, 4, 8]"
  using
    sticky_deletion [where f =
      "\<lparr>path = ''/a'', bookmarks = [\<lparr>line = 2, column = 0, label = ''''\<rparr>,
         \<lparr>line = 5, column = 0, label = ''''\<rparr>, \<lparr>line = 9, column = 0, label = ''''\<rparr>]\<rparr>"
      and c = "\<lparr>start_line = 4, start_character = 0, end_line = 7, end_character = 0, change_text = ''''\<rparr>"
      and keep = False
      and doc = "document_of_lines [''l0'', ''l1'', ''l2'', ''l3'', ''l7'', ''l8'', ''l9'']"]
    sticky_deletion [where f =
      "\<lparr>path = ''/a'', bookmarks = [\<lparr>line = 2, column = 0, label = ''''\<rparr>,
         \<lparr>line = 5, column = 0, label = ''''\<rparr>, \<lparr>line = 9, column = 0, label = ''''\<rparr>]\<rparr>"
      and c = "\<lparr>start_line = 4, start_character = 0, end_line = 7, end_character = 0, change_text = ''''\<rparr>"
      and keep = True
      and doc = "document_of_lines [''l0'', ''l1'', ''l2'', ''l3'', ''l7'', ''l8'', ''l9'']"]
    sticky_deletion [where f =
      "\<lparr>path = ''/a'', bookmarks = [\<lparr>line = 2, column = 0, label = ''''\<rparr>,
         \<lparr>line = 5, column = 0, label = ''''\<rparr>, \<lparr>line = 9, column = 0, label = ''''\<rparr>]\<rparr>"
      and c = "\<lparr>start_line = 4, start_character = 0, end_line = 7, end_character = 0,
        change_text = [CHR ''a'', CHR 0x0A, CHR ''b'', CHR 0x0A]\<rparr>"
      and keep = False
      and doc = "document_of_lines [''l0'', ''l1'', ''l2'', ''l3'', ''a'', ''b'', ''l7'', ''l8'', ''l9'']"]
  by (simp add: spec_afterDeletion_def spec_collapsed_def shiftCondition_def adjustedEventChar_def)

section \<open>The claim about navigation\<close>

lemma scanForward_find:
  "scanForward bms cur =
     map_option (\<lambda>b. \<lparr>pos_line = line b, pos_character = column b\<rparr>)
       (find (\<lambda>b. line b > pos_line cur) bms)"
  by (induction bms) auto

text \<open>
  Claim C4.  For a non-empty list of bookmarks and the direction Forward,
  \<^verbatim>\<open>nextBookmark\<close> resolves to the position of the first bookmark of the list whose line
  is strictly greater than the line of the cursor; a bookmark on the line of the cursor
  does not qualify.  When there is no such bookmark and \<^verbatim>\<open>navigateThroughAllFiles\<close> is
  false, it resolves to the position of the first bookmark of the list when
  \<^verbatim>\<open>wrapNavigation\<close> is true and to \<^verbatim>\<open>NO_BOOKMARKS_AFTER\<close> when it is false.  On a list
  sorted by line the first such bookmark is the one with the least such line.
\<close>

theorem nextBookmark_forward:
  assumes "bms \<noteq> []"
  shows "nextBookmark navigateThroughAllFiles wrapNavigation (Some bms) cur Forward =
    (case find (\<lambda>b. line b > pos_line cur) bms of
       Some b \<Rightarrow> Inr (Pos \<lparr>pos_line = line b, pos_character = column b\<rparr>)
     | None \<Rightarrow>
         if navigateThroughAllFiles then Inr (Number NO_MORE_BOOKMARKS)
         else if wrapNavigation
           then Inr (Pos \<lparr>pos_line = line (hd bms), pos_character = column (hd bms)\<rparr>)
           else Inr (Number NO_BOOKMARKS_AFTER))
    \<and> (sorted (map line bms) \<longrightarrow>
         (\<forall>b. find (\<lambda>b. line b > pos_line cur) bms = Some b \<longrightarrow>
            line b > pos_line cur \<and>
            (\<forall>x\<in>set bms. line x > pos_line cur \<longrightarrow> line b \<le> line x)))"
proof (intro conjI impI allI)
  show "nextBookmark navigateThroughAllFiles wrapNavigation (Some bms) cur Forward =
    (case find (\<lambda>b. line b > pos_line cur) bms of
       Some b \<Rightarrow> Inr (Pos \<lparr>pos_line = line b, pos_character = column b\<rparr>)
     | None \<Rightarrow>
         if navigateThroughAllFiles then Inr (Number NO_MORE_BOOKMARKS)
         else if wrapNavigation
           then Inr (Pos \<lparr>pos_line = line (hd bms), pos_character = column (hd bms)\<rparr>)
           else Inr (Number NO_BOOKMARKS_AFTER))"
    using assms
    by (auto simp: nextBookmark_def scanForward_find hd_conv_nth split: option.splits)
next
  fix b
  assume "sorted (map line bms)" "find (\<lambda>b. line b > pos_line cur) bms = Some b"
  then have "line b > pos_line cur \<and> (\<forall>x\<in>set bms. line x > pos_line cur \<longrightarrow> line b \<le> line x)"
  proof (induction bms)
    case Nil
    then show ?case by simp
  next
    case (Cons a bms)
    then show ?case by (auto split: if_splits)
  qed
  then show "line b > pos_line cur"
    and "\<forall>x\<in>set bms. line x > pos_line cur \<longrightarrow> line b \<le> line x"
    by simp_all
qed

theorem nextBookmark_forward_witness:
  "nextBookmark False True
      (Some [\<lparr>line = 3, column = 1, label = ''''\<rparr>, \<lparr>line = 7, column = 2, label = ''''\<rparr>,
             \<lparr>line = 12, column = 4, label = ''''\<rparr>])
      \<lparr>pos_line = 12, pos_character = 0\<rparr> Forward
     = Inr (Pos \<lparr>pos_line = 3, pos_character = 1\<rparr>)
   \<and> nextBookmark False False
      (Some [\<lparr>line = 3, column = 1, label = ''''\<rparr>, \<lparr>line = 7, column = 2, label = ''''\<rparr>,
             \<lparr>line = 12, column = 4, label = ''''\<rparr>])
      \<lparr>pos_line = 12, pos_character = 0\<rparr> Forward
     = Inr (Number NO_BOOKMARKS_AFTER)
   \<and> nextBookmark False True
      (Some [\<lparr>line = 3, column = 1, label = ''''\<rparr>, \<lparr>line = 7, column = 2, label = ''''\<rparr>,
             \<lparr>line = 12, column = 4, label = ''''\<rparr>])
      \<lparr>pos_line = 7, pos_character = 0\<rparr> Forward
     = Inr (Pos \<lparr>pos_line = 12, pos_character = 4\<rparr>)"
  using
    nextBookmark_forward [of "[\<lparr>line = 3, column = 1, label = ''''\<rparr>, \<lparr>line = 7, column = 2, label = ''''\<rparr>,
             \<lparr>line = 12, column = 4, label = ''''\<rparr>]" False True "\<lparr>pos_line = 12, pos_character = 0\<rparr>"]
    nextBookmark_forward [of "[\<lparr>line = 3, column = 1, label = ''''\<rparr>, \<lparr>line = 7, column = 2, label = ''''\<rparr>,
             \<lparr>line = 12, column = 4, label = ''''\<rparr>]" False False "\<lparr>pos_line = 12, pos_character = 0\<rparr>"]
    nextBookmark_forward [of "[\<lparr>line = 3, column = 1, label = ''''\<rparr>, \<lparr>line = 7, column = 2, label = ''''\<rparr>,
             \<lparr>line = 12, column = 4, label = ''''\<rparr>]" False True "\<lparr>pos_line = 7, pos_character = 0\<rparr>"]
  by simp

section \<open>Claims about toggle\<close>

text \<open>
  Claim C5, what the code does.  When a bookmark exists on the line and \<^verbatim>\<open>toggle\<close> is called
  with a non-empty label, the call returns \<^verbatim>\<open>false\<close>, as a removal does, and the bookmarks
  of the file are those before the call with the label of the bookmark on that line
  replaced: no bookmark is removed or added, and the column of the relabelled bookmark is
  the column it had, not the column of the call.  What tells the relabel from a removal
  is the event: the call fires \<^verbatim>\<open>onDidUpdateBookmark\<close>, whose payload carries the column of
  the call plus one, and then \<^verbatim>\<open>onDidChange\<close>.
\<close>

theorem toggle_relabel_keeps_column:
  assumes "ln \<in> line ` set (getBookmarksForFile env u m)" and "l \<noteq> ''''"
  shows "fst (toggle env u ln col (Some l) m) = False
    \<and> getBookmarksForFile env u (snd (toggle env u ln col (Some l) m)) =
        (getBookmarksForFile env u m)
          [length (takeWhile (\<lambda>b. line b \<noteq> ln) (getBookmarksForFile env u m))
             := ((getBookmarksForFile env u m)
                   ! length (takeWhile (\<lambda>b. line b \<noteq> ln) (getBookmarksForFile env u m)))\<lparr>label := l\<rparr>]
    \<and> map column (getBookmarksForFile env u (snd (toggle env u ln col (Some l) m)))
        = map column (getBookmarksForFile env u m)
    \<and> map line (getBookmarksForFile env u (snd (toggle env u ln col (Some l) m)))
        = map line (getBookmarksForFile env u m)
    \<and> effects (snd (toggle env u ln col (Some l) m)) =
        effects m @ [DidUpdateBookmark (normalizePath env (fsPath env u))
                       (int (length (takeWhile (\<lambda>b. line b \<noteq> ln) (getBookmarksForFile env u m))))
                       (ln + 1) (Some (col + 1)) None (Some l), DidChange]"
proof -
  have c: "map column (bs[i := (bs ! i)\<lparr>label := l\<rparr>]) = map column bs" for bs :: "Bookmark list" and i
    by (induction bs arbitrary: i) (auto split: nat.splits)
  show ?thesis
    using toggle_relabels [OF assms] by (simp add: c map_line_label_update)
qed

text \<open>
  The failing input of claim C5: a bookmark at line 5, column 0, and \<^verbatim>\<open>toggle\<close> at line 5,
  column 7, with the label \<^verbatim>\<open>foo\<close>.  The stored column remains 0.
\<close>

theorem toggle_relabel_keeps_column_witness:
  "fst (toggle example_env \<lparr>uri_scheme = ''file'', uri_path = ''/a''\<rparr> 5 7 (Some ''foo'')
          \<lparr>files = [\<lparr>path = ''/a'', bookmarks = [\<lparr>line = 5, column = 0, label = ''''\<rparr>]\<rparr>],
           globalState = None, effects = []\<rparr>) = False
   \<and> getBookmarksForFile example_env \<lparr>uri_scheme = ''file'', uri_path = ''/a''\<rparr>
        (snd (toggle example_env \<lparr>uri_scheme = ''file'', uri_path = ''/a''\<rparr> 5 7 (Some ''foo'')
          \<lparr>files = [\<lparr>path = ''/a'', bookmarks = [\<lparr>line = 5, column = 0, label = ''''\<rparr>]\<rparr>],
           globalState = None, effects = []\<rparr>))
      = [\<lparr>line = 5, column = 0, label = ''foo''\<rparr>]"
  using toggle_relabel_keeps_column [of 5 example_env "\<lparr>uri_scheme = ''file'', uri_path = ''/a''\<rparr>"
      "\<lparr>files = [\<lparr>path = ''/a'', bookmarks = [\<lparr>line = 5, column = 0, label = ''''\<rparr>]\<rparr>],
           globalState = None, effects = []\<rparr>" "''foo''" 7]
  by (simp add: getBookmarksForFile_def fromUri_def example_env_def normalizePath_def)

lemma remove_first_single:
  "length (filter (\<lambda>b. line b = ln) bs) = 1 \<Longrightarrow>
     take (length (takeWhile (\<lambda>b. line b \<noteq> ln) bs)) bs
       @ drop (Suc (length (takeWhile (\<lambda>b. line b \<noteq> ln) bs))) bs
     = filter (\<lambda>b. line b \<noteq> ln) bs"
proof (induction bs)
  case Nil
  then show ?case by simp
next
  case (Cons b bs)
  show ?case
  proof (cases "line b = ln")
    case True
    with Cons.prems have "filter (\<lambda>b. line b = ln) bs = []" by simp
    then have "filter (\<lambda>b. line b \<noteq> ln) bs = bs"
      by (auto simp: filter_id_conv filter_empty_conv)
    with True show ?thesis by simp
  next
    case False
    with Cons show ?thesis by auto
  qed
qed

lemma toggle_removes_single:
  assumes "length (filter (\<lambda>b. line b = ln) (getBookmarksForFile env u m)) = 1"
    and "lbl = None \<or> lbl = Some ''''"
  shows "fst (toggle env u ln col lbl m) = False"
    and "getBookmarksForFile env u (snd (toggle env u ln col lbl m)) =
          filter (\<lambda>b. line b \<noteq> ln) (getBookmarksForFile env u m)"
proof -
  obtain fi m1 where g: "getOrCreateFile env u m = (fi, m1)" by (cases "getOrCreateFile env u m")
  note p = getOrCreateFile_props [OF g]
  let ?file = "files m1 ! fi"
  let ?n = "length (takeWhile (\<lambda>b. line b \<noteq> ln) (bookmarks ?file))"
  have "filter (\<lambda>b. line b = ln) (getBookmarksForFile env u m) \<noteq> []"
    using assms(1) by auto
  then have mem: "ln \<in> line ` set (getBookmarksForFile env u m)"
    by (auto simp: filter_empty_conv)
  then have fnd: "indexOfBookmark ?file ln \<ge> 0"
    using p(4) by (simp add: index_nonneg_iff)
  have t: "toggle env u ln col lbl m =
            (False, fire DidChange (save env (removeBookmark fi (indexOfBookmark ?file ln) ln m1)))"
    using fnd assms(2) by (auto simp: toggle_def g Let_def)
  show "fst (toggle env u ln col lbl m) = False" by (simp add: t)
  have idx: "indexOfBookmark ?file ln = int ?n"
    using mem p(4) by (simp add: indexOfBookmark_def indexOfFrom_in)
  have "?n \<le> length (bookmarks ?file)"
    by (rule length_takeWhile_le)
  then have "splice1 (indexOfBookmark ?file ln) (bookmarks ?file)
               = filter (\<lambda>b. line b \<noteq> ln) (bookmarks ?file)"
    using remove_first_single [of ln "bookmarks ?file"] assms(1) p(4)
    by (simp add: idx splice1_nat)
  then show "getBookmarksForFile env u (snd (toggle env u ln col lbl m)) =
          filter (\<lambda>b. line b \<noteq> ln) (getBookmarksForFile env u m)"
    unfolding t using p(4)
    by (simp add: removeBookmark_def getBookmarksForFile_setBookmarks [OF p(2)])
qed

text \<open>
  Claim C7.  On a file that holds no bookmark on the line, two calls of \<^verbatim>\<open>toggle\<close> at that
  line without a label return \<^verbatim>\<open>true\<close> (added) and then \<^verbatim>\<open>false\<close> (removed); after the
  first the file holds a bookmark on the line, after the second it holds none, and its
  bookmarks are those it had before the two calls, in the order of the stable sort by line
  that \<^verbatim>\<open>addBookmark\<close> performs: the very list they were when that list was sorted by line.
\<close>

theorem toggle_twice_restores:
  assumes "ln \<notin> line ` set (getBookmarksForFile env u m)"
  shows "fst (toggle env u ln col None m) = True
    \<and> ln \<in> line ` set (getBookmarksForFile env u (snd (toggle env u ln col None m)))
    \<and> fst (toggle env u ln col' None (snd (toggle env u ln col None m))) = False
    \<and> ln \<notin> line ` set (getBookmarksForFile env u
                          (snd (toggle env u ln col' None (snd (toggle env u ln col None m)))))
    \<and> getBookmarksForFile env u (snd (toggle env u ln col' None (snd (toggle env u ln col None m))))
        = sort_key line (getBookmarksForFile env u m)
    \<and> (sorted (map line (getBookmarksForFile env u m)) \<longrightarrow>
        getBookmarksForFile env u (snd (toggle env u ln col' None (snd (toggle env u ln col None m))))
          = getBookmarksForFile env u m)"
proof -
  let ?bs = "getBookmarksForFile env u m"
  let ?new = "\<lparr>line = ln, column = col, label = ''''\<rparr>"
  let ?m1 = "snd (toggle env u ln col None m)"
  have r1: "fst (toggle env u ln col None m) = True"
    using toggle_adds(1) [OF assms, of col None] by simp
  have b1: "getBookmarksForFile env u ?m1 = sort_key line (?bs @ [?new])"
    using toggle_adds(2) [OF assms, of col None] by simp
  have mem: "ln \<in> line ` set (getBookmarksForFile env u ?m1)"
    unfolding b1 by simp
  have none: "filter (\<lambda>b. line b = ln) ?bs = []"
    using assms by (auto simp: filter_empty_conv)
  have keep: "filter (\<lambda>b. line b \<noteq> ln) ?bs = ?bs"
    using assms by (auto simp: filter_id_conv)
  have one: "length (filter (\<lambda>b. line b = ln) (getBookmarksForFile env u ?m1)) = 1"
    unfolding b1 by (simp add: filter_sort none)
  have r2: "fst (toggle env u ln col' None ?m1) = False"
    by (rule toggle_removes_single(1) [OF one]) simp
  have b2: "getBookmarksForFile env u (snd (toggle env u ln col' None ?m1))
              = filter (\<lambda>b. line b \<noteq> ln) (getBookmarksForFile env u ?m1)"
    by (rule toggle_removes_single(2) [OF one]) simp
  have restored: "filter (\<lambda>b. line b \<noteq> ln) (sort_key line (?bs @ [?new])) = sort_key line ?bs"
    by (simp add: filter_sort keep)
  have same: "sorted (map line ?bs) \<Longrightarrow> sort_key line ?bs = ?bs"
    by (rule sort_key_id_if_sorted)
  show ?thesis
    using r1 mem r2 b2 restored b1 assms same by simp
qed

theorem toggle_twice_restores_witness:
  "fst (toggle example_env \<lparr>uri_scheme = ''file'', uri_path = ''/a''\<rparr> 5 0 None
          \<lparr>files = [\<lparr>path = ''/a'', bookmarks = [\<lparr>line = 2, column = 0, label = ''''\<rparr>,
                       \<lparr>line = 9, column = 3, label = ''x''\<rparr>]\<rparr>],
           globalState = None, effects = []\<rparr>) = True
   \<and> fst (toggle example_env \<lparr>uri_scheme = ''file'', uri_path = ''/a''\<rparr> 5 0 None
        (snd (toggle example_env \<lparr>uri_scheme = ''file'', uri_path = ''/a''\<rparr> 5 0 None
          \<lparr>files = [\<lparr>path = ''/a'', bookmarks = [\<lparr>line = 2, column = 0, label = ''''\<rparr>,
                       \<lparr>line = 9, column = 3, label = ''x''\<rparr>]\<rparr>],
           globalState = None, effects = []\<rparr>))) = False
   \<and> getBookmarksForFile example_env \<lparr>uri_scheme = ''file'', uri_path = ''/a''\<rparr>
        (snd (toggle example_env \<lparr>uri_scheme = ''file'', uri_path = ''/a''\<rparr> 5 0 None
          (snd (toggle example_env \<lparr>uri_scheme = ''file'', uri_path = ''/a''\<rparr> 5 0 None
            \<lparr>files = [\<lparr>path = ''/a'', bookmarks = [\<lparr>line = 2, column = 0, label = ''''\<rparr>,
                         \<lparr>line = 9, column = 3, label = ''x''\<rparr>]\<rparr>],
             globalState = None, effects = []\<rparr>))))
      = [\<lparr>line = 2, column = 0, label = ''''\<rparr>, \<lparr>line = 9, column = 3, label = ''x''\<rparr>]"
  using toggle_twice_restores [where env = example_env
      and u = "\<lparr>uri_scheme = ''file'', uri_path = ''/a''\<rparr>"
      and m = "\<lparr>files = [\<lparr>path = ''/a'', bookmarks = [\<lparr>line = 2, column = 0, label = ''''\<rparr>,
                         \<lparr>line = 9, column = 3, label = ''x''\<rparr>]\<rparr>],
             globalState = None, effects = []\<rparr>"
      and ln = 5 and col = 0 and col' = 0]
  by (simp add: getBookmarksForFile_def fromUri_def example_env_def normalizePath_def sorted_lines_def)

section \<open>The claim about listing\<close>

lemma splice1_last: "splice1 (- 1) xs = butlast xs"
  by (cases xs rule: rev_cases) (simp_all add: splice1_def Let_def)

lemma pruneLoop_take:
  "pruneLoop invalids bs = take (length bs - length invalids) bs"
proof (induction invalids arbitrary: bs)
  case Nil
  then show ?case by simp
next
  case (Cons i invalids)
  have "pruneLoop (i # invalids) bs = pruneLoop invalids (butlast bs)"
    by (simp add: indexOf_objectLiteral_def splice1_last)
  also have "\<dots> = take (length (butlast bs) - length invalids) (butlast bs)"
    by (rule Cons.IH)
  also have "\<dots> = take (length bs - length (i # invalids)) bs"
    by (simp add: butlast_conv_take min_def)
  finally show ?case .
qed

lemma classifyLoop_invalids:
  "\<forall>b\<in>set bs. 0 \<le> line b \<Longrightarrow>
   \<exists>items'. classifyLoop env doc p u bs items invalids =
     Some (items', invalids @ map (\<lambda>b. line b + 1) (filter (\<lambda>b. lineCount doc \<le> line b) bs))
     \<and> length items' = length items + length (filter (\<lambda>b. line b < lineCount doc) bs)"
proof (induction bs arbitrary: items invalids)
  case Nil
  then show ?case by simp
next
  case (Cons b bs)
  then have nn: "0 \<le> line b" and rest: "\<forall>b\<in>set bs. 0 \<le> line b" by simp_all
  show ?case
  proof (cases "line b + 1 \<le> lineCount doc")
    case True
    then have la: "lineAt doc (line b + 1 - 1) = Some (lineAt_text doc (line b))"
      using nn by (simp add: lineAt_def)
    let ?item = "\<lparr>description = ''(Ln '' @ toString (line b + 1) @ '', Col ''
                                  @ toString (column b + 1) @ '')'',
                  item_label = (if label b = [] then trim (lineAt_text doc (line b))
                                else codicons_tag env @ '' '' @ label b),
                  detail = p, item_uri = u\<rparr>"
    from Cons.IH [OF rest, of "items @ [?item]" invalids]
    obtain items' where
      "classifyLoop env doc p u bs (items @ [?item]) invalids =
         Some (items', invalids @ map (\<lambda>b. line b + 1) (filter (\<lambda>b. lineCount doc \<le> line b) bs))"
      "length items' = length (items @ [?item]) + length (filter (\<lambda>b. line b < lineCount doc) bs)"
      by blast
    with True la show ?thesis
      by (simp add: Let_def)
  next
    case False
    from Cons.IH [OF rest, of items "invalids @ [line b + 1]"] False show ?thesis
      by (simp add: Let_def)
  qed
qed

text \<open>
  Claim C8, what the code does.  When the document of the file can be opened and no
  bookmark has a negative line, \<^verbatim>\<open>listBookmarks\<close> gives one item for every bookmark inside
  the document, and removes from the end of \<^verbatim>\<open>file.bookmarks\<close> as many bookmarks as there
  are bookmarks past the end of the document, whichever bookmarks stand at the end.
\<close>

theorem listBookmarks_removes_trailing:
  assumes "bookmarks file \<noteq> []"
    and "uriExists env (uriDocBookmark env file workspaceFolder)"
    and "openTextDocument env (uriDocBookmark env file workspaceFolder) = Some doc"
    and "\<forall>b\<in>set (bookmarks file). 0 \<le> line b"
  shows "\<exists>items. listBookmarks env file workspaceFolder =
      (file\<lparr>bookmarks :=
          take (length (bookmarks file)
                  - length (filter (\<lambda>b. lineCount doc \<le> line b) (bookmarks file)))
            (bookmarks file)\<rparr>,
       Resolved (Some items))
     \<and> length items = length (filter (\<lambda>b. line b < lineCount doc) (bookmarks file))"
proof -
  from classifyLoop_invalids [OF assms(4), of env doc "path file"
      "uriDocBookmark env file workspaceFolder" "[]" "[]"]
  obtain items where c: "classifyLoop env doc (path file) (uriDocBookmark env file workspaceFolder)
       (bookmarks file) [] [] =
      Some (items, map (\<lambda>b. line b + 1) (filter (\<lambda>b. lineCount doc \<le> line b) (bookmarks file)))"
    and l: "length items = length (filter (\<lambda>b. line b < lineCount doc) (bookmarks file))"
    by auto
  show ?thesis
    using assms(1,2,3) c l by (simp add: listBookmarks_def pruneLoop_take)
qed

text \<open>
  The failing input of claim C8: bookmarks stored in the order line 100, line 1, and a
  document of ten lines.  The bookmark of line 1, which is inside the document, is removed;
  the bookmark of line 100, which is past its end, is kept.
\<close>

theorem listBookmarks_removes_trailing_witness:
  "bookmarks (fst (listBookmarks
      (example_env\<lparr>openTextDocument := (\<lambda>u. Some (document_of_lines
          [''l0'', ''l1'', ''l2'', ''l3'', ''l4'', ''l5'', ''l6'', ''l7'', ''l8'', ''l9'']))\<rparr>)
      \<lparr>path = ''a.txt'',
       bookmarks = [\<lparr>line = 100, column = 0, label = ''''\<rparr>, \<lparr>line = 1, column = 0, label = ''''\<rparr>],
       file_uri = None\<rparr>
      None))
   = [\<lparr>line = 100, column = 0, label = ''''\<rparr>]"
  using listBookmarks_removes_trailing [of
      "\<lparr>path = ''a.txt'',
       bookmarks = [\<lparr>line = 100, column = 0, label = ''''\<rparr>, \<lparr>line = 1, column = 0, label = ''''\<rparr>],
       file_uri = None\<rparr>"
      "example_env\<lparr>openTextDocument := (\<lambda>u. Some (document_of_lines
          [''l0'', ''l1'', ''l2'', ''l3'', ''l4'', ''l5'', ''l6'', ''l7'', ''l8'', ''l9'']))\<rparr>"
      None
      "document_of_lines [''l0'', ''l1'', ''l2'', ''l3'', ''l4'', ''l5'', ''l6'', ''l7'', ''l8'', ''l9'']"]
  by (auto simp: example_env_def uriExists_def uriDocBookmark_def document_of_lines_def)

lemma sorted_take_valid:
  "sorted (map line bs) \<Longrightarrow>
     take (length bs - length (filter (\<lambda>b. n \<le> line b) bs)) bs = filter (\<lambda>b. line b < n) bs"
proof (induction bs)
  case Nil
  then show ?case by simp
next
  case (Cons b bs)
  then have srt: "sorted (map line bs)" and above: "\<forall>x\<in>set bs. line b \<le> line x" by auto
  show ?case
  proof (cases "n \<le> line b")
    case True
    with above have "filter (\<lambda>b. n \<le> line b) bs = bs" "filter (\<lambda>b. line b < n) bs = []"
      by (auto simp: filter_id_conv filter_empty_conv)
    with True show ?thesis by simp
  next
    case False
    have "length (filter (\<lambda>b. n \<le> line b) bs) \<le> length bs" by (rule length_filter_le)
    then have "Suc (length bs) - length (filter (\<lambda>b. n \<le> line b) bs)
                = Suc (length bs - length (filter (\<lambda>b. n \<le> line b) bs))"
      by (rule Suc_diff_le)
    with False Cons.IH [OF srt] show ?thesis by simp
  qed
qed

text \<open>
  On a store that is sorted by line the bookmarks past the end of the document are the
  last ones, and what \<^verbatim>\<open>listBookmarks\<close> removes is then exactly the invalid bookmarks.
\<close>

lemma listBookmarks_sorted_store:
  assumes "bookmarks file \<noteq> []"
    and "uriExists env (uriDocBookmark env file workspaceFolder)"
    and "openTextDocument env (uriDocBookmark env file workspaceFolder) = Some doc"
    and "\<forall>b\<in>set (bookmarks file). 0 \<le> line b"
    and "sorted (map line (bookmarks file))"
  shows "bookmarks (fst (listBookmarks env file workspaceFolder))
           = filter (\<lambda>b. line b < lineCount doc) (bookmarks file)"
proof -
  from classifyLoop_invalids [OF assms(4), of env doc "path file"
      "uriDocBookmark env file workspaceFolder" "[]" "[]"]
  obtain items where "classifyLoop env doc (path file) (uriDocBookmark env file workspaceFolder)
       (bookmarks file) [] [] =
      Some (items, map (\<lambda>b. line b + 1) (filter (\<lambda>b. lineCount doc \<le> line b) (bookmarks file)))"
    by auto
  then show ?thesis
    using assms(1,2,3) sorted_take_valid [OF assms(5), of "lineCount doc"]
    by (simp add: listBookmarks_def pruneLoop_take)
qed

section \<open>The claim about the batch toggle\<close>

lemma fromUri_None_empty:
  "fromUri env (Some u) m = None \<Longrightarrow> getBookmarksForFile env u m = []"
  by (simp add: getBookmarksForFile_def)

lemma fromUri_Some_bookmarks:
  "fromUri env (Some u) m = Some fi \<Longrightarrow> getBookmarksForFile env u m = bookmarks (files m ! fi)"
  by (simp add: getBookmarksForFile_def)

lemma fromUri_Some_length:
  "fromUri env (Some u) m = Some fi \<Longrightarrow> fi < length (files m)"
  by (auto simp: fromUri_def dest: findByPath_Some)

lemma removeBookmark_bookmarks:
  assumes "fromUri env (Some u) m = Some fi" "distinct (map line (getBookmarksForFile env u m))"
    "ln \<in> line ` set (getBookmarksForFile env u m)"
  shows "getBookmarksForFile env u (removeBookmark fi (indexOfBookmark (files m ! fi) ln) ln m)
           = filter (\<lambda>b. line b \<noteq> ln) (getBookmarksForFile env u m)"
proof -
  have f: "findByPath (files m) (normalizePath env (fsPath env u)) = Some fi"
    using assms(1) by (simp add: fromUri_def)
  have b: "getBookmarksForFile env u m = bookmarks (files m ! fi)"
    by (rule fromUri_Some_bookmarks [OF assms(1)])
  have "splice1 (indexOfBookmark (files m ! fi) ln) (bookmarks (files m ! fi))
          = filter (\<lambda>b. line b \<noteq> ln) (bookmarks (files m ! fi))"
    using assms(2,3) unfolding b by (rule splice1_indexOfBookmark)
  then show ?thesis
    by (simp add: removeBookmark_def getBookmarksForFile_setBookmarks [OF f] b)
qed

lemma stepOn_eq:
  "toggleGlobal_body env u (Some On) sel m =
     (if active_line sel \<in> line ` set (getBookmarksForFile env u m) then m
      else addBookmark env u (active_line sel) (active_character sel) None m)"
proof (cases "fromUri env (Some u) m")
  case None
  then show ?thesis by (simp add: toggleGlobal_body_def Let_def fromUri_None_empty)
next
  case (Some fi)
  have "(indexOfBookmark (files m ! fi) (active_line sel) < 0)
          = (active_line sel \<notin> line ` set (bookmarks (files m ! fi)))"
    using index_nonneg_iff [of "files m ! fi" "active_line sel"] by auto
  with Some show ?thesis
    by (simp add: toggleGlobal_body_def Let_def fromUri_Some_bookmarks)
qed

lemma loop_on_unfold:
  "toggleGlobal_loop env u (Some On) (sel # rest) toggledLines m =
     (if active_line sel \<in> set toggledLines
      then toggleGlobal_loop env u (Some On) rest toggledLines m
      else toggleGlobal_loop env u (Some On) rest (toggledLines @ [active_line sel]) (toggleGlobal_body env u (Some On) sel m))"
  by (simp add: Let_def toggleGlobal_body_def Let_def)

lemma stepOn_facts:
  "set (getBookmarksForFile env u m) \<subseteq> set (getBookmarksForFile env u (toggleGlobal_body env u (Some On) sel m))"
  "line ` set (getBookmarksForFile env u (toggleGlobal_body env u (Some On) sel m))
     = insert (active_line sel) (line ` set (getBookmarksForFile env u m))"
  "store_inv m \<Longrightarrow> store_inv (toggleGlobal_body env u (Some On) sel m)"
  by (auto simp: stepOn_eq addBookmark_bookmarks addBookmark_inv)

lemma loop_on:
  "set (getBookmarksForFile env u m)
     \<subseteq> set (getBookmarksForFile env u (toggleGlobal_loop env u (Some On) sels toggledLines m))
   \<and> line ` set (getBookmarksForFile env u (toggleGlobal_loop env u (Some On) sels toggledLines m))
     = line ` set (getBookmarksForFile env u m) \<union> (active_line ` set sels - set toggledLines)"
proof (induction sels arbitrary: toggledLines m)
  case Nil
  then show ?case by simp
next
  case (Cons sel rest)
  show ?case
  proof (cases "active_line sel \<in> set toggledLines")
    case True
    with Cons.IH [of m toggledLines] show ?thesis
      by (simp only: loop_on_unfold) auto
  next
    case False
    from Cons.IH [of "toggleGlobal_body env u (Some On) sel m" "toggledLines @ [active_line sel]"]
      stepOn_facts(1,2) [where env=env and u=u and m=m and sel=sel] False
    show ?thesis
      by (simp only: loop_on_unfold) auto
  qed
qed

lemma loop_off_unfold:
  "toggleGlobal_loop env u (Some Off) (sel # rest) toggledLines m =
     (if active_line sel \<in> set toggledLines
      then toggleGlobal_loop env u (Some Off) rest toggledLines m
      else toggleGlobal_loop env u (Some Off) rest (toggledLines @ [active_line sel]) (toggleGlobal_body env u (Some Off) sel m))"
  by (simp add: Let_def toggleGlobal_body_def)

lemma stepOff_bookmarks:
  assumes "distinct (map line (getBookmarksForFile env u m))"
  shows "getBookmarksForFile env u (toggleGlobal_body env u (Some Off) sel m)
           = filter (\<lambda>b. line b \<noteq> active_line sel) (getBookmarksForFile env u m)"
proof (cases "fromUri env (Some u) m")
  case None
  then show ?thesis by (simp add: toggleGlobal_body_def fromUri_None_empty)
next
  case (Some fi)
  show ?thesis
  proof (cases "active_line sel \<in> line ` set (getBookmarksForFile env u m)")
    case True
    then have "indexOfBookmark (files m ! fi) (active_line sel) \<ge> 0"
      using Some by (simp add: index_nonneg_iff fromUri_Some_bookmarks)
    with Some removeBookmark_bookmarks [OF Some assms True] show ?thesis
      by (simp add: toggleGlobal_body_def Let_def)
  next
    case False
    then have "\<not> indexOfBookmark (files m ! fi) (active_line sel) \<ge> 0"
      using Some by (simp add: index_nonneg_iff fromUri_Some_bookmarks)
    moreover have "filter (\<lambda>b. line b \<noteq> active_line sel) (getBookmarksForFile env u m)
                     = getBookmarksForFile env u m"
      using False by (auto simp: filter_id_conv intro: rev_image_eqI)
    ultimately show ?thesis using Some by (simp add: toggleGlobal_body_def Let_def)
  qed
qed

lemma stepOff_inv: "store_inv m \<Longrightarrow> store_inv (toggleGlobal_body env u (Some Off) sel m)"
  by (auto simp: toggleGlobal_body_def Let_def removeBookmark_inv fromUri_Some_length split: option.splits)

lemma loop_off:
  "distinct (map line (getBookmarksForFile env u m)) \<Longrightarrow>
   getBookmarksForFile env u (toggleGlobal_loop env u (Some Off) sels toggledLines m)
     = filter (\<lambda>b. line b \<notin> active_line ` set sels - set toggledLines) (getBookmarksForFile env u m)"
proof (induction sels arbitrary: toggledLines m)
  case Nil
  then show ?case by simp
next
  case (Cons sel rest)
  show ?case
  proof (cases "active_line sel \<in> set toggledLines")
    case True
    have "filter (\<lambda>b. line b \<notin> active_line ` set (sel # rest) - set toggledLines) (getBookmarksForFile env u m)
           = filter (\<lambda>b. line b \<notin> active_line ` set rest - set toggledLines) (getBookmarksForFile env u m)"
      using True by (intro filter_cong) auto
    with Cons.IH [OF Cons.prems, of toggledLines] True show ?thesis
      by (simp only: loop_off_unfold if_True)
  next
    case False
    let ?m' = "toggleGlobal_body env u (Some Off) sel m"
    have b': "getBookmarksForFile env u ?m'
               = filter (\<lambda>b. line b \<noteq> active_line sel) (getBookmarksForFile env u m)"
      by (rule stepOff_bookmarks [OF Cons.prems])
    have d': "distinct (map line (getBookmarksForFile env u ?m'))"
      unfolding b' using Cons.prems by (simp add: distinct_map_filter)
    have "filter (\<lambda>b. line b \<notin> active_line ` set rest - set (toggledLines @ [active_line sel]))
            (filter (\<lambda>b. line b \<noteq> active_line sel) (getBookmarksForFile env u m))
          = filter (\<lambda>b. line b \<notin> active_line ` set (sel # rest) - set toggledLines)
              (getBookmarksForFile env u m)"
      using False by (simp, intro filter_cong) auto
    with Cons.IH [OF d', of "toggledLines @ [active_line sel]"] False b' show ?thesis
      by (simp only: loop_off_unfold if_False)
  qed
qed

lemma body_inv: "store_inv m \<Longrightarrow> store_inv (toggleGlobal_body env u forceState sel m)"
proof (cases forceState)
  case None
  assume "store_inv m"
  with None show ?thesis by (simp add: toggleGlobal_body_def toggle_inv)
next
  case (Some fs)
  assume "store_inv m"
  with Some stepOn_facts(3) [where m=m and env=env and u=u and sel=sel]
    stepOff_inv [where m=m and env=env and u=u and sel=sel] show ?thesis
    by (cases fs) simp_all
qed

lemma loop_inv:
  "store_inv m \<Longrightarrow> store_inv (toggleGlobal_loop env u forceState sels toggledLines m)"
  by (induction sels arbitrary: toggledLines m) (simp_all add: Let_def body_inv)

lemma toggleGlobal_inv:
  "store_inv m \<Longrightarrow> store_inv (toggleGlobal env toggleMode activeTextEditor m)"
  by (auto simp: toggleGlobal_def Let_def loop_inv split: option.splits)

lemma allBookmarked_iff:
  assumes "sels \<noteq> []"
  shows "(case fromUri env (Some u) m of
            None \<Rightarrow> False
          | Some fi \<Rightarrow> list_all (\<lambda>sel. indexOfBookmark (files m ! fi) (active_line sel) \<ge> 0) sels)
         = (\<forall>sel\<in>set sels. active_line sel \<in> line ` set (getBookmarksForFile env u m))"
proof (cases "fromUri env (Some u) m")
  case None
  with assms show ?thesis
    by (cases sels) (auto simp: fromUri_None_empty)
next
  case (Some fi)
  then show ?thesis
    by (simp add: list_all_iff index_nonneg_iff fromUri_Some_bookmarks)
qed

text \<open>
  Claim C6.  With the toggle mode \<^verbatim>\<open>allLinesAtOnce\<close> and more than one selection, the command
  \<^verbatim>\<open>bookmarks.toggleGlobal\<close> decides from the bookmarks that the file holds before the
  batch.  When not every selected line has a bookmark then, every bookmark of the file stays
  as it is and the lines with a bookmark afterwards are those before together with the
  selected lines; when every selected line has one (and no two bookmarks of the file share
  a line), the bookmarks of the selected lines are removed and the others stay.
\<close>

theorem toggleGlobal_allLinesAtOnce:
  assumes "length sels > 1"
    and "uri_scheme u \<noteq> SEARCH_EDITOR_SCHEME env"
  shows "(\<not> (\<forall>sel\<in>set sels. active_line sel \<in> line ` set (getBookmarksForFile env u m)) \<longrightarrow>
          set (getBookmarksForFile env u m)
            \<subseteq> set (getBookmarksForFile env u (toggleGlobal env ''allLinesAtOnce'' (Some (u, sels)) m))
          \<and> line ` set (getBookmarksForFile env u (toggleGlobal env ''allLinesAtOnce'' (Some (u, sels)) m))
            = line ` set (getBookmarksForFile env u m) \<union> active_line ` set sels)
     \<and> ((\<forall>sel\<in>set sels. active_line sel \<in> line ` set (getBookmarksForFile env u m))
          \<and> distinct (map line (getBookmarksForFile env u m)) \<longrightarrow>
          getBookmarksForFile env u (toggleGlobal env ''allLinesAtOnce'' (Some (u, sels)) m)
            = filter (\<lambda>b. line b \<notin> active_line ` set sels) (getBookmarksForFile env u m))"
proof -
  from assms(1) have ne: "sels \<noteq> []" by auto
  let ?all = "\<forall>sel\<in>set sels. active_line sel \<in> line ` set (getBookmarksForFile env u m)"
  have t: "toggleGlobal env ''allLinesAtOnce'' (Some (u, sels)) m =
             notifyAndSave env (toggleGlobal_loop env u (Some (if ?all then Off else On)) sels [] m)"
    using assms(1,2) allBookmarked_iff [OF ne, where env=env and u=u and m=m]
    by (simp add: toggleGlobal_def Let_def)
  have b: "getBookmarksForFile env u (notifyAndSave env' m') = getBookmarksForFile env u m'" for env' m'
    by (rule getBookmarksForFile_cong) simp
  have off: "getBookmarksForFile env u (toggleGlobal env ''allLinesAtOnce'' (Some (u, sels)) m)
            = filter (\<lambda>b. line b \<notin> active_line ` set sels) (getBookmarksForFile env u m)"
    if "?all" and d: "distinct (map line (getBookmarksForFile env u m))"
  proof -
    have t': "toggleGlobal env ''allLinesAtOnce'' (Some (u, sels)) m =
                notifyAndSave env (toggleGlobal_loop env u (Some Off) sels [] m)"
      unfolding t by (simp only: if_P [OF that(1)])
    show ?thesis
      unfolding t' b using loop_off [OF d, where sels=sels and toggledLines="[]"] by simp
  qed
  have on: "set (getBookmarksForFile env u m)
            \<subseteq> set (getBookmarksForFile env u (toggleGlobal env ''allLinesAtOnce'' (Some (u, sels)) m))
          \<and> line ` set (getBookmarksForFile env u (toggleGlobal env ''allLinesAtOnce'' (Some (u, sels)) m))
            = line ` set (getBookmarksForFile env u m) \<union> active_line ` set sels"
    if "\<not> ?all"
  proof -
    have t': "toggleGlobal env ''allLinesAtOnce'' (Some (u, sels)) m =
                notifyAndSave env (toggleGlobal_loop env u (Some On) sels [] m)"
      unfolding t by (simp only: if_not_P [OF that])
    show ?thesis
      unfolding t' b
      using loop_on [where env=env and u=u and m=m and sels=sels and toggledLines="[]"] by simp
  qed
  from on off show ?thesis by blast
qed

text \<open>
  A store with bookmarks at lines 1 and 2 and a batch on the lines 1, 2 and 3: a bookmark is
  added at line 3, and the bookmarks of lines 1 and 2 are as they were.
\<close>

theorem toggleGlobal_allLinesAtOnce_witness:
  "getBookmarksForFile example_env \<lparr>uri_scheme = ''file'', uri_path = ''/a''\<rparr>
     (toggleGlobal example_env ''allLinesAtOnce''
        (Some (\<lparr>uri_scheme = ''file'', uri_path = ''/a''\<rparr>,
               [\<lparr>active_line = 1, active_character = 0\<rparr>, \<lparr>active_line = 2, active_character = 0\<rparr>,
                \<lparr>active_line = 3, active_character = 6\<rparr>]))
        \<lparr>files = [\<lparr>path = ''/a'', bookmarks = [\<lparr>line = 1, column = 4, label = ''one''\<rparr>,
                     \<lparr>line = 2, column = 5, label = ''''\<rparr>]\<rparr>],
         globalState = None, effects = []\<rparr>)
   = [\<lparr>line = 1, column = 4, label = ''one''\<rparr>, \<lparr>line = 2, column = 5, label = ''''\<rparr>,
      \<lparr>line = 3, column = 6, label = ''''\<rparr>]"
proof -
  let ?u = "\<lparr>uri_scheme = ''file'', uri_path = ''/a''\<rparr>"
  let ?sels = "[\<lparr>active_line = 1, active_character = 0\<rparr>, \<lparr>active_line = 2, active_character = 0\<rparr>,
                \<lparr>active_line = 3, active_character = 6\<rparr>]"
  let ?m = "\<lparr>files = [\<lparr>path = ''/a'', bookmarks = [\<lparr>line = 1, column = 4, label = ''one''\<rparr>,
                     \<lparr>line = 2, column = 5, label = ''''\<rparr>]\<rparr>],
         globalState = None, effects = []\<rparr>"
  have b: "getBookmarksForFile example_env ?u ?m
             = [\<lparr>line = 1, column = 4, label = ''one''\<rparr>, \<lparr>line = 2, column = 5, label = ''''\<rparr>]"
    by (simp add: getBookmarksForFile_def fromUri_def example_env_def normalizePath_def)
  have "set (getBookmarksForFile example_env ?u ?m)
            \<subseteq> set (getBookmarksForFile example_env ?u (toggleGlobal example_env ''allLinesAtOnce'' (Some (?u, ?sels)) ?m))
          \<and> line ` set (getBookmarksForFile example_env ?u (toggleGlobal example_env ''allLinesAtOnce'' (Some (?u, ?sels)) ?m))
            = line ` set (getBookmarksForFile example_env ?u ?m) \<union> active_line ` set ?sels"
    using toggleGlobal_allLinesAtOnce [where sels="?sels" and u="?u" and env=example_env and m="?m"]
    unfolding b by (simp add: sorted_lines_def example_env_def)
  then have "line ` set (getBookmarksForFile example_env ?u (toggleGlobal example_env ''allLinesAtOnce'' (Some (?u, ?sels)) ?m))
      = {1, 2, 3}"
    unfolding b by auto
  moreover have "getBookmarksForFile example_env ?u (toggleGlobal example_env ''allLinesAtOnce'' (Some (?u, ?sels)) ?m)
    = [\<lparr>line = 1, column = 4, label = ''one''\<rparr>, \<lparr>line = 2, column = 5, label = ''''\<rparr>,
      \<lparr>line = 3, column = 6, label = ''''\<rparr>]"
    by (simp add: toggleGlobal_def toggleGlobal_body_def Let_def getBookmarksForFile_def fromUri_def
        example_env_def normalizePath_def indexOfBookmark_def addBookmark_def getOrCreateFile_def
        setBookmarks_def fire_def save_def notifyAndSave_def)
  ultimately show ?thesis by simp
qed

section \<open>Claims about loading and the invariant of the store\<close>

text \<open>
  Claim C9, what the code does with a blob that does not parse.  The global scope recovers:
  \<^verbatim>\<open>load\<close> shows an error message and leaves the manager without files.  The project scope
  recovers when the blob is the project's \<^verbatim>\<open>bookmarks.json\<close>: \<^verbatim>\<open>loadBookmarks\<close> shows an error
  message (after those of its first log line) and resolves to the new, empty controller.  When the blob is the workspace state,
  \<^verbatim>\<open>JSON.parse\<close> is called outside any \<^verbatim>\<open>try\<close>, and the promise of \<^verbatim>\<open>loadBookmarks\<close> is
  rejected: there is no controller, empty or otherwise.
\<close>

theorem load_malformed_blob:
  assumes "JSON_parse env t = None" and "t \<noteq> ''''"
  shows "(globalState m = Some t \<longrightarrow>
            files (load env m) = [] \<and> effects (load env m) = effects m @ [ShowErrorMessage])
    \<and> (canSaveBookmarksInProject proj \<and> bookmarksFile_exists proj
          \<and> bookmarksFile_text proj = Some t
          \<and> \<not> snd (fileSystemData env proj globalBookmarks) \<longrightarrow>
            loadBookmarks env proj globalBookmarks True
              = (fst (fileSystemData env proj globalBookmarks) @ [ShowErrorMessage],
                 Resolved (new_Controller proj)))
    \<and> (\<not> canSaveBookmarksInProject proj \<and> workspaceState_bookmarks proj = Some t \<longrightarrow>
            snd (loadBookmarks env proj globalBookmarks hasWorkspaceFolder) = Rejected)"
  using assms
  by (auto simp: load_def globalState_get_def fire_def loadBookmarks_def readFileUri_def Let_def
      split_beta)

theorem load_malformed_blob_witness:
  "snd (loadBookmarks example_env example_project None False) = Rejected
   \<and> files (load example_env \<lparr>files = [\<lparr>path = ''/a'', bookmarks = []\<rparr>], globalState = Some ''{'',
                               effects = []\<rparr>) = []"
  using load_malformed_blob [of example_env "''{''"
      "\<lparr>files = [\<lparr>path = ''/a'', bookmarks = []\<rparr>], globalState = Some ''{'', effects = []\<rparr>"
      example_project None False]
  by (simp add: example_env_def example_blob_def example_project_def canSaveBookmarksInProject_def)

text \<open>
  Claim C1, as amended.  Every file of the global manager keeps its bookmarks strictly
  sorted by line, with no line twice, through \<^verbatim>\<open>toggle\<close> (whether it adds, removes or
  relabels), through the command \<^verbatim>\<open>bookmarks.toggleGlobal\<close> and through the sticky
  adjustment of a text change.  \<^verbatim>\<open>load\<close> installs the persisted lists as they are: the
  invariant holds after it when the lists of the persisted blob are strictly sorted.
\<close>

theorem store_invariant_preserved:
  assumes "store_inv m"
  shows "store_inv (snd (toggle env u ln col lbl m))
    \<and> store_inv (toggleGlobal env toggleMode activeTextEditor m)
    \<and> store_inv (onDidChangeTextDocument_global env keepBookmarksOnLineDelete u contentChanges document m)
    \<and> ((\<forall>parsed fs. JSON_parse env (globalState_get m '''') = Some parsed \<longrightarrow>
                     asFileArray env parsed = Some fs \<longrightarrow>
                     (\<forall>f\<in>set fs. sorted_lines (bookmarks f)))
         \<longrightarrow> store_inv (load env m))"
proof (intro conjI impI)
  show "store_inv (snd (toggle env u ln col lbl m))"
    by (rule toggle_inv) (rule assms)
  show "store_inv (toggleGlobal env toggleMode activeTextEditor m)"
    by (rule toggleGlobal_inv) (rule assms)
  show "store_inv (onDidChangeTextDocument_global env keepBookmarksOnLineDelete u contentChanges document m)"
  proof (cases "fromUri env (Some u) m")
    case None
    with assms show ?thesis by (simp add: onDidChangeTextDocument_global_def)
  next
    case (Some fi)
    let ?r = "updateStickyGlobalBookmarks keepBookmarksOnLineDelete contentChanges (files m ! fi) document"
    have "sorted_lines (bookmarks (files m ! fi))"
      by (rule store_inv_nth [OF assms fromUri_Some_length [OF Some]])
    then have "sorted_lines (bookmarks (snd ?r))"
      by (simp add: sorted_lines_iff updateStickyGlobalBookmarks_sorted)
    then have "store_inv (m\<lparr>files := (files m)[fi := snd ?r]\<rparr>)"
      using assms unfolding store_inv_def
      by (auto dest!: set_update_subset_insert [THEN subsetD])
    with assms Some show ?thesis
      by (simp add: onDidChangeTextDocument_global_def Let_def split_beta)
  qed
next
  assume ok: "\<forall>parsed fs. JSON_parse env (globalState_get m '''') = Some parsed \<longrightarrow>
                     asFileArray env parsed = Some fs \<longrightarrow>
                     (\<forall>f\<in>set fs. sorted_lines (bookmarks f))"
  show "store_inv (load env m)"
    using assms ok
    by (auto simp: load_def Let_def store_inv_def fire_def split: option.splits)
qed

theorem store_invariant_preserved_witness:
  "store_inv (snd (toggle example_env \<lparr>uri_scheme = ''file'', uri_path = ''/a''\<rparr> 5 0 None
      \<lparr>files = [\<lparr>path = ''/a'', bookmarks = [\<lparr>line = 2, column = 0, label = ''''\<rparr>,
                   \<lparr>line = 9, column = 3, label = ''x''\<rparr>]\<rparr>],
       globalState = None, effects = []\<rparr>))
   \<and> store_inv (onDidChangeTextDocument_global example_env True
        \<lparr>uri_scheme = ''file'', uri_path = ''/a''\<rparr>
        [\<lparr>start_line = 1, start_character = 0, end_line = 4, end_character = 0, change_text = ''''\<rparr>]
        (document_of_lines [''l0'', ''l4'', ''l5'', ''l6'', ''l7'', ''l8'', ''l9''])
        \<lparr>files = [\<lparr>path = ''/a'', bookmarks = [\<lparr>line = 2, column = 0, label = ''''\<rparr>,
                     \<lparr>line = 9, column = 3, label = ''x''\<rparr>]\<rparr>],
         globalState = None, effects = []\<rparr>)
   \<and> store_inv (load example_env
        \<lparr>files = [\<lparr>path = ''/a'', bookmarks = [\<lparr>line = 2, column = 0, label = ''''\<rparr>,
                     \<lparr>line = 9, column = 3, label = ''x''\<rparr>]\<rparr>],
         globalState = None, effects = []\<rparr>)"
proof -
  let ?m = "\<lparr>files = [\<lparr>path = ''/a'', bookmarks = [\<lparr>line = 2, column = 0, label = ''''\<rparr>,
                     \<lparr>line = 9, column = 3, label = ''x''\<rparr>]\<rparr>],
         globalState = None, effects = []\<rparr>"
  have inv: "store_inv ?m"
    by (simp add: store_inv_def sorted_lines_def)
  have blob: "\<forall>parsed fs. JSON_parse example_env (globalState_get ?m '''') = Some parsed \<longrightarrow>
                     asFileArray example_env parsed = Some fs \<longrightarrow>
                     (\<forall>f\<in>set fs. sorted_lines (bookmarks f))"
    by (simp add: globalState_get_def example_env_def example_blob_def)
  from store_invariant_preserved [OF inv, of example_env "\<lparr>uri_scheme = ''file'', uri_path = ''/a''\<rparr>"
      5 0 None "''allLinesAtOnce''" None True
      "[\<lparr>start_line = 1, start_character = 0, end_line = 4, end_character = 0, change_text = ''''\<rparr>]"
      "document_of_lines [''l0'', ''l4'', ''l5'', ''l6'', ''l7'', ''l8'', ''l9'']"] blob
  show ?thesis by blast
qed

lemma example_blob_nonempty: "example_blob \<noteq> []"
  by (simp add: example_blob_def)

text \<open>
  Claim C1 as it was stated fails at \<^verbatim>\<open>load\<close>: a persisted blob whose one file lists the
  bookmark of line 5 before the bookmark of line 2 is installed in that order.
\<close>

theorem load_keeps_persisted_order_counterexample:
  "map line (bookmarks (files (load example_env
      \<lparr>files = [], globalState = Some example_blob, effects = []\<rparr>) ! 0)) = [5, 2]
   \<and> \<not> store_inv (load example_env \<lparr>files = [], globalState = Some example_blob, effects = []\<rparr>)"
  by (simp add: load_def globalState_get_def example_env_def store_inv_def
      sorted_lines_def Let_def example_blob_nonempty)

end
